theory Spec2Isabelle
  imports Main "HOL-Library.Word"
begin

section \<open>Text: the part of QString and QTextStream the writer uses\<close>

text \<open>
  Strings are lists of characters. The writer only ever inspects ASCII characters
  (tab, backslash, the control characters and the letters of \<open>COPY\<close>); every other
  character passes through untouched, so a character type of bytes is enough.
\<close>

abbreviation BSL :: char where "BSL \<equiv> CHR 0x5C"
abbreviation TAB :: char where "TAB \<equiv> CHR 0x09"

text \<open>\<open>QString::replace(QChar, QString)\<close>: every occurrence, left to right.\<close>

definition replace_char :: "char \<Rightarrow> string \<Rightarrow> string \<Rightarrow> string" where
  "replace_char c r s = concat (map (\<lambda>x. if x = c then r else [x]) s)"

text \<open>\<open>OsmApiDbBulkWriter::_escapeCopyToData\<close>: seven replacements, in the source's order.\<close>

definition escapeCopyToData :: "string \<Rightarrow> string" where
  "escapeCopyToData stringToOutput =
     replace_char (CHR 0x0D) [BSL, CHR ''r'']
       (replace_char (CHR 0x0C) [BSL, CHR ''f'']
         (replace_char (CHR 0x0B) [BSL, CHR ''v'']
           (replace_char (CHR 0x0A) [BSL, CHR ''n'']
             (replace_char (CHR 0x09) [BSL, CHR ''t'']
               (replace_char (CHR 0x08) [BSL, CHR ''b'']
                 (replace_char BSL [BSL, BSL] stringToOutput))))))"

text \<open>What the seven passes do to one character (used to reason about them together).\<close>

definition escape_char :: "char \<Rightarrow> string" where
  "escape_char c =
     (if c = BSL then [BSL, BSL]
      else if c = CHR 0x08 then [BSL, CHR ''b'']
      else if c = CHR 0x09 then [BSL, CHR ''t'']
      else if c = CHR 0x0A then [BSL, CHR ''n'']
      else if c = CHR 0x0B then [BSL, CHR ''v'']
      else if c = CHR 0x0C then [BSL, CHR ''f'']
      else if c = CHR 0x0D then [BSL, CHR ''r'']
      else [c])"


subsection \<open>Numbers\<close>

definition digit_char :: "nat \<Rightarrow> char" where
  "digit_char d = ''0123456789'' ! (d mod 10)"

fun digits :: "nat \<Rightarrow> string" where
  "digits n = (if n < 10 then [digit_char n] else digits (n div 10) @ [digit_char (n mod 10)])"

declare digits.simps [simp del]

text \<open>
  \<open>QString::number(long)\<close>. A C++ \<open>long\<close> is modelled as an unbounded integer: the
  ids and counters of the writer stay far from the 64-bit limits.
\<close>

definition number :: "int \<Rightarrow> string" where
  "number i = (if i < 0 then CHR ''-'' # digits (nat (- i)) else digits (nat i))"

definition is_digit :: "char \<Rightarrow> bool" where
  "is_digit c = (c \<in> set ''0123456789'')"

text \<open>The value of a digit is its place among the ten digits.\<close>

definition digit_val :: "char \<Rightarrow> nat" where
  "digit_val c = length (takeWhile (\<lambda>x. x \<noteq> c) ''0123456789'')"

fun parse_digits :: "nat \<Rightarrow> string \<Rightarrow> nat option" where
  "parse_digits acc [] = Some acc"
| "parse_digits acc (c # cs) =
     (if is_digit c then parse_digits (10 * acc + digit_val c) cs else None)"

text \<open>\<open>QChar::isSpace\<close> on ASCII, and \<open>QString::trimmed\<close>.\<close>

definition isSpace :: "char \<Rightarrow> bool" where
  "isSpace c = (c \<in> set [CHR 0x09, CHR 0x0A, CHR 0x0B, CHR 0x0C, CHR 0x0D, CHR 0x20])"

definition trimmed :: "string \<Rightarrow> string" where
  "trimmed s = rev (dropWhile isSpace (rev (dropWhile isSpace s)))"

text \<open>
  \<open>QString::toLong\<close>: surrounding white space is skipped, an optional sign and decimal
  digits are read, and anything else gives 0.
\<close>

definition toLong :: "string \<Rightarrow> int" where
  "toLong s =
     (case trimmed s of
        [] \<Rightarrow> 0
      | c # cs \<Rightarrow>
          if c = CHR ''-'' then
            (case cs of [] \<Rightarrow> 0
             | _ # _ \<Rightarrow> (case parse_digits 0 cs of None \<Rightarrow> 0 | Some n \<Rightarrow> - int n))
          else if c = CHR ''+'' then
            (case cs of [] \<Rightarrow> 0
             | _ # _ \<Rightarrow> (case parse_digits 0 cs of None \<Rightarrow> 0 | Some n \<Rightarrow> int n))
          else (case parse_digits 0 (c # cs) of None \<Rightarrow> 0 | Some n \<Rightarrow> int n))"

subsection \<open>Splitting, joining, searching\<close>

text \<open>\<open>QStringList::join("\t")\<close>.\<close>

fun joinTab :: "string list \<Rightarrow> string" where
  "joinTab [] = []"
| "joinTab [x] = x"
| "joinTab (x # y # ys) = x @ TAB # joinTab (y # ys)"

declare joinTab.simps [simp del]

text \<open>\<open>QString::split\<close> keeping empty parts: one more part than separators.\<close>

fun split_at :: "(char \<Rightarrow> bool) \<Rightarrow> string \<Rightarrow> string list" where
  "split_at p [] = [[]]"
| "split_at p (c # cs) =
     (if p c then [] # split_at p cs
      else (case split_at p cs of [] \<Rightarrow> [[c]] | x # xs \<Rightarrow> (c # x) # xs))"

definition splitTab :: "string \<Rightarrow> string list" where
  "splitTab s = split_at (\<lambda>c. c = TAB) s"

text \<open>\<open>line.split(QRegExp("\\s"))\<close>: split at every single white-space character.\<close>

definition splitSpace :: "string \<Rightarrow> string list" where
  "splitSpace s = split_at isSpace s"

fun startsWith :: "string \<Rightarrow> string \<Rightarrow> bool" where
  "startsWith [] s = True"
| "startsWith (x # xs) [] = False"
| "startsWith (x # xs) (y # ys) = (x = y \<and> startsWith xs ys)"

text \<open>\<open>QString::contains\<close>, with the needle first.\<close>

fun contains :: "string \<Rightarrow> string \<Rightarrow> bool" where
  "contains sub [] = (sub = [])"
| "contains sub (c # cs) = (startsWith sub (c # cs) \<or> contains sub cs)"

definition lower_char :: "char \<Rightarrow> char" where
  "lower_char c =
     (case map_of (zip ''ABCDEFGHIJKLMNOPQRSTUVWXYZ'' ''abcdefghijklmnopqrstuvwxyz'') c of
        None \<Rightarrow> c | Some d \<Rightarrow> d)"

definition toLower :: "string \<Rightarrow> string" where
  "toLower s = map lower_char s"

subsection \<open>Timestamps\<close>

text \<open>
  \<open>QDateTime::currentDateTime().toUTC().toString("yyyy-MM-dd hh:mm:ss.zzz")\<close>: the clock
  is part of the environment; what the writer does with it is to print its fields.
\<close>

record DateTime =
  year :: nat
  month :: nat
  day :: nat
  hour :: nat
  minute :: nat
  second :: nat
  msec :: nat

definition pad :: "nat \<Rightarrow> nat \<Rightarrow> string" where
  "pad width n = replicate (width - length (digits n)) (CHR ''0'') @ digits n"

definition datestring :: "DateTime \<Rightarrow> string" where
  "datestring t =
     pad 4 (year t) @ ''-'' @ pad 2 (month t) @ ''-'' @ pad 2 (day t) @ '' '' @
     pad 2 (hour t) @ '':'' @ pad 2 (minute t) @ '':'' @ pad 2 (second t) @ ''.'' @
     pad 3 (msec t)"


section \<open>Data model\<close>

text \<open>\<open>ElementType::Type\<close>; \<open>Unknown\<close> is the value the switches' default branches catch.\<close>

datatype ElementType = Node | Way | Relation | Unknown

type_synonym ElementId = "ElementType \<times> int"

text \<open>The tags of an element, in the order the hash iterates over them.\<close>

type_synonym Tags = "(string \<times> string) list"

text \<open>
  A node carries its coordinates as doubles. The writer multiplies them by
  \<open>ApiDb::COORDINATE_SCALE\<close> and rounds; floating point is outside this model, so the
  node carries the integers that \<open>round(getY() * COORDINATE_SCALE)\<close> and
  \<open>round(getX() * COORDINATE_SCALE)\<close> yield, and the number \<open>ApiDb::tileForPoint\<close>
  returns for it (that helper is not part of the writer).
\<close>

record OsmNode =
  nodeId :: int
  nodeTags :: Tags
  nodeYRounded :: int
  nodeXRounded :: int
  nodeTile :: nat

record OsmWay =
  wayId :: int
  wayTags :: Tags
  wayNodeIds :: "int list"

text \<open>\<open>RelationData::Entry\<close>: a role and the element id of the member.\<close>

record Entry =
  entryRole :: string
  entryType :: ElementType
  entryId :: int

record OsmRelation =
  relationId :: int
  relationTags :: Tags
  relationMembers :: "Entry list"

datatype Element = NodeElement OsmNode | WayElement OsmWay | RelationElement OsmRelation

record UnresolvedRelationReference =
  sourceRelationId :: int
  sourceDbRelationId :: int
  relationMemberData :: Entry
  relationMemberSequenceId :: nat

text \<open>
  The bounds of a changeset over the rounded coordinates: \<open>None\<close> is the null envelope,
  otherwise (min x, max x, min y, max y).
\<close>

type_synonym Envelope = "(int \<times> int \<times> int \<times> int) option"

definition expandToInclude :: "Envelope \<Rightarrow> int \<Rightarrow> int \<Rightarrow> Envelope" where
  "expandToInclude env x y =
     (case env of
        None \<Rightarrow> Some (x, x, y, y)
      | Some (minX, maxX, minY, maxY) \<Rightarrow> Some (min minX x, max maxX x, min minY y, max maxY y))"

text \<open>
  Every exception the writer throws, by the place that throws it, and the three ways the
  C++ can stop without an exception: a null stream or map pointer that is dereferenced,
  a list index out of range, a failed \<open>assert\<close>.
\<close>

datatype Error =
    UpdateNotSupported
  | UnsupportedElementType
  | InvalidLatitude
  | InvalidLongitude
  | UnresolvedWayNode
  | UnsupportedMemberType
  | UnresolvedWaynodeRefFound
  | InvalidUserId
  | CannotLockIds
  | NullPointer
  | IndexOutOfRange
  | AssertionFailed

text \<open>
  The settings and the environment of one session. \<open>nextNodeId\<close> \<open>\<dots>\<close>
  \<open>nextChangesetId\<close> are what \<open>_database.getNextId\<close> returns, \<open>clock\<close> the successive
  readings of the system clock, \<open>nullEnvelope\<close> the four coordinates read from a null
  envelope, \<open>assertsEnabled\<close> whether the build keeps \<open>assert\<close>. Temporary files are assumed
  to open and flush; the status interval and the line buffer size, which only drive logging
  and flushing, are left out.
\<close>

record Config =
  mode :: string
  confChangesetUserId :: int
  maxChangesetSize :: int
  assertsEnabled :: bool
  nextNodeId :: int
  nextWayId :: int
  nextRelationId :: int
  nextChangesetId :: int
  clock :: "nat \<Rightarrow> DateTime"
  nullEnvelope :: "int \<times> int \<times> int \<times> int"

text \<open>
  The members of \<open>OsmApiDbBulkWriter\<close>. A \<open>shared_ptr\<close> that may be null is an option.
  A section file is the list of its lines: every text the writer sends to a section ends
  with a line feed, and escaping leaves no line feed inside a field.
\<close>

record Writer =
  nodesWritten :: int
  nodeTagsWritten :: int
  waysWritten :: int
  wayNodesWritten :: int
  wayTagsWritten :: int
  relationsWritten :: int
  relationMembersWritten :: int
  relationTagsWritten :: int
  changesetUserId :: int
  currentChangesetId :: int
  changesInChangeset :: int
  changesetsWritten :: int
  changesetBounds :: Envelope
  currentNodeId :: int
  nodeIdMap :: "(int \<rightharpoonup> int) option"
  currentWayId :: int
  wayIdMap :: "(int \<rightharpoonup> int) option"
  currentRelationId :: int
  relationIdMap :: "(int \<rightharpoonup> int) option"
  unresolvedWaynodeRefs :: "(int \<rightharpoonup> (int \<times> nat) list) option"
  unresolvedRelationRefs :: "(ElementId \<rightharpoonup> UnresolvedRelationReference) option"
  outputSections :: "string \<rightharpoonup> string list"
  clockReads :: nat

definition bind :: "Error + 'a \<Rightarrow> ('a \<Rightarrow> Error + 'b) \<Rightarrow> Error + 'b" where
  "bind m f = (case m of Inl e \<Rightarrow> Inl e | Inr x \<Rightarrow> f x)"

section \<open>Table names, headers and the canonical order\<close>

text \<open>
  The names \<open>ApiDb\<close> gives the tables and sequences (\<open>ApiDb\<close> is not part of the writer;
  the names are those of the OSM API database schema).
\<close>

abbreviation getChangesetsTableName :: string where "getChangesetsTableName \<equiv> ''changesets''"
abbreviation getCurrentNodesTableName :: string where "getCurrentNodesTableName \<equiv> ''current_nodes''"
abbreviation getCurrentNodeTagsTableName :: string where "getCurrentNodeTagsTableName \<equiv> ''current_node_tags''"
abbreviation getNodesTableName :: string where "getNodesTableName \<equiv> ''nodes''"
abbreviation getNodeTagsTableName :: string where "getNodeTagsTableName \<equiv> ''node_tags''"
abbreviation getCurrentWaysTableName :: string where "getCurrentWaysTableName \<equiv> ''current_ways''"
abbreviation getCurrentWayNodesTableName :: string where "getCurrentWayNodesTableName \<equiv> ''current_way_nodes''"
abbreviation getCurrentWayTagsTableName :: string where "getCurrentWayTagsTableName \<equiv> ''current_way_tags''"
abbreviation getWaysTableName :: string where "getWaysTableName \<equiv> ''ways''"
abbreviation getWayNodesTableName :: string where "getWayNodesTableName \<equiv> ''way_nodes''"
abbreviation getWayTagsTableName :: string where "getWayTagsTableName \<equiv> ''way_tags''"
abbreviation getCurrentRelationsTableName :: string where "getCurrentRelationsTableName \<equiv> ''current_relations''"
abbreviation getCurrentRelationMembersTableName :: string where "getCurrentRelationMembersTableName \<equiv> ''current_relation_members''"
abbreviation getCurrentRelationTagsTableName :: string where "getCurrentRelationTagsTableName \<equiv> ''current_relation_tags''"
abbreviation getRelationsTableName :: string where "getRelationsTableName \<equiv> ''relations''"
abbreviation getRelationMembersTableName :: string where "getRelationMembersTableName \<equiv> ''relation_members''"
abbreviation getRelationTagsTableName :: string where "getRelationTagsTableName \<equiv> ''relation_tags''"

abbreviation getChangesetsSequenceName :: string where "getChangesetsSequenceName \<equiv> ''changesets_id_seq''"
abbreviation getCurrentNodesSequenceName :: string where "getCurrentNodesSequenceName \<equiv> ''current_nodes_id_seq''"
abbreviation getCurrentWaysSequenceName :: string where "getCurrentWaysSequenceName \<equiv> ''current_ways_id_seq''"
abbreviation getCurrentRelationsSequenceName :: string where "getCurrentRelationsSequenceName \<equiv> ''current_relations_id_seq''"

text \<open>\<open>OsmApiDbBulkWriter::_createSectionNameList\<close>.\<close>

definition createSectionNameList :: "string list" where
  "createSectionNameList =
     [''byte_order_mark'', ''sequence_updates'', getChangesetsTableName,
      getCurrentNodesTableName, getCurrentNodeTagsTableName, getNodesTableName,
      getNodeTagsTableName, getCurrentWaysTableName, getCurrentWayNodesTableName,
      getCurrentWayTagsTableName, getWaysTableName, getWayNodesTableName, getWayTagsTableName,
      getCurrentRelationsTableName, getCurrentRelationMembersTableName,
      getCurrentRelationTagsTableName, getRelationsTableName, getRelationMembersTableName,
      getRelationTagsTableName]"

text \<open>The header line of a copy section: \<open>COPY <table> (<columns>) FROM stdin;\<close>.\<close>

definition copyHeader :: "string \<Rightarrow> string \<Rightarrow> string" where
  "copyHeader tableName columns = ''COPY '' @ tableName @ '' ('' @ columns @ '') FROM stdin;''"

abbreviation quotedTimestamp :: string where
  "quotedTimestamp \<equiv> CHR 0x22 # ''timestamp'' @ [CHR 0x22]"

abbreviation terminator :: string where "terminator \<equiv> [BSL, CHR ''.'']"

abbreviation nullField :: string where "nullField \<equiv> [BSL, CHR ''N'']"


section \<open>The writer\<close>

subsection \<open>Sections\<close>

text \<open>
  \<open>_createTable\<close>: a fresh temporary file under the table's name, holding the header.
  The byte order mark of the first section is a matter of encoding and is not a character
  of the model.
\<close>

definition createTable :: "string \<Rightarrow> string list \<Rightarrow> Writer \<Rightarrow> Writer" where
  "createTable tableName tableHeader w =
     w\<lparr>outputSections := (outputSections w)(tableName \<mapsto> tableHeader)\<rparr>"

text \<open>
  \<open>*(_outputSections[tableName].second) << text\<close>: for a table without a section the
  stream pointer is null.
\<close>

definition writeLines :: "string \<Rightarrow> string list \<Rightarrow> Writer \<Rightarrow> Error + Writer" where
  "writeLines tableName ls w =
     (case outputSections w tableName of
        None \<Rightarrow> Inl NullPointer
      | Some content \<Rightarrow> Inr (w\<lparr>outputSections := (outputSections w)(tableName \<mapsto> content @ ls)\<rparr>))"

definition currentDateTime :: "Config \<Rightarrow> Writer \<Rightarrow> string \<times> Writer" where
  "currentDateTime cfg w =
     (datestring (clock cfg (clockReads w)), w\<lparr>clockReads := Suc (clockReads w)\<rparr>)"

definition createNodeTables :: "Writer \<Rightarrow> Writer" where
  "createNodeTables w =
     createTable getNodeTagsTableName
       [copyHeader getNodeTagsTableName ''node_id, version, k, v'']
     (createTable getNodesTableName
       [copyHeader getNodesTableName
          (''node_id, latitude, longitude, changeset_id, visible, '' @ quotedTimestamp @ '', tile, version, redaction_id'')]
     (createTable getCurrentNodeTagsTableName
       [copyHeader getCurrentNodeTagsTableName ''node_id, k, v'']
     (createTable getCurrentNodesTableName
       [copyHeader getCurrentNodesTableName
          (''id, latitude, longitude, changeset_id, visible, '' @ quotedTimestamp @ '', tile, version'')]
      w)))"

definition createWayTables :: "Writer \<Rightarrow> Writer" where
  "createWayTables w =
     createTable getWayNodesTableName
       [copyHeader getWayNodesTableName ''way_id, node_id, version, sequence_id'']
     (createTable getWayTagsTableName
       [copyHeader getWayTagsTableName ''way_id, version, k, v'']
     (createTable getWaysTableName
       [copyHeader getWaysTableName
          (''way_id, changeset_id, '' @ quotedTimestamp @ '', version, visible, redaction_id'')]
     (createTable getCurrentWayNodesTableName
       [copyHeader getCurrentWayNodesTableName ''way_id, node_id, sequence_id'']
     (createTable getCurrentWayTagsTableName
       [copyHeader getCurrentWayTagsTableName ''way_id, k, v'']
     (createTable getCurrentWaysTableName
       [copyHeader getCurrentWaysTableName (''id, changeset_id, '' @ quotedTimestamp @ '', visible, version'')]
      w)))))"

definition createRelationTables :: "Writer \<Rightarrow> Writer" where
  "createRelationTables w =
     createTable getRelationMembersTableName
       [copyHeader getRelationMembersTableName
          ''relation_id, member_type, member_id, member_role, version, sequence_id'']
     (createTable getRelationTagsTableName
       [copyHeader getRelationTagsTableName ''relation_id, version, k, v'']
     (createTable getRelationsTableName
       [copyHeader getRelationsTableName
          (''relation_id, changeset_id, '' @ quotedTimestamp @ '', version, visible, redaction_id'')]
     (createTable getCurrentRelationMembersTableName
       [copyHeader getCurrentRelationMembersTableName
          ''relation_id, member_type, member_id, member_role, sequence_id'']
     (createTable getCurrentRelationTagsTableName
       [copyHeader getCurrentRelationTagsTableName ''relation_id, k, v'']
     (createTable getCurrentRelationsTableName
       [copyHeader getCurrentRelationsTableName
          (''id, changeset_id, '' @ quotedTimestamp @ '', visible, version'')]
      w)))))"

subsection \<open>Local ids\<close>

text \<open>\<open>_establishNewIdMapping\<close>: the id before the increment, recorded under the source id.\<close>

definition establishNewIdMapping :: "ElementId \<Rightarrow> Writer \<Rightarrow> Error + (int \<times> Writer)" where
  "establishNewIdMapping sourceId w =
     (case fst sourceId of
        Node \<Rightarrow>
          (case nodeIdMap w of
             None \<Rightarrow> Inl NullPointer
           | Some m \<Rightarrow>
               Inr (currentNodeId w,
                    w\<lparr>nodeIdMap := Some (m(snd sourceId \<mapsto> currentNodeId w)),
                      currentNodeId := currentNodeId w + 1\<rparr>))
      | Way \<Rightarrow>
          (case wayIdMap w of
             None \<Rightarrow> Inl NullPointer
           | Some m \<Rightarrow>
               Inr (currentWayId w,
                    w\<lparr>wayIdMap := Some (m(snd sourceId \<mapsto> currentWayId w)),
                      currentWayId := currentWayId w + 1\<rparr>))
      | Relation \<Rightarrow>
          (case relationIdMap w of
             None \<Rightarrow> Inl NullPointer
           | Some m \<Rightarrow>
               Inr (currentRelationId w,
                    w\<lparr>relationIdMap := Some (m(snd sourceId \<mapsto> currentRelationId w)),
                      currentRelationId := currentRelationId w + 1\<rparr>))
      | Unknown \<Rightarrow> Inl UnsupportedElementType)"

subsection \<open>Changesets\<close>

definition boundsColumns :: "Config \<Rightarrow> Envelope \<Rightarrow> string list" where
  "boundsColumns cfg env =
     (case (case env of None \<Rightarrow> nullEnvelope cfg | Some e \<Rightarrow> e) of
        (minX, maxX, minY, maxY) \<Rightarrow> [number minY, number maxY, number minX, number maxX])"

text \<open>
  \<open>_writeChangesetToTable\<close>. The section is created only when the current changeset id
  is 1; the id and the count of written changesets are not touched here (those lines are
  commented out in the source).
\<close>

definition writeChangesetToTable :: "Config \<Rightarrow> Writer \<Rightarrow> Error + Writer" where
  "writeChangesetToTable cfg w =
     (if changesetUserId w = - 1 then Inl InvalidUserId
      else
        let w1 = (if currentChangesetId w = 1
                  then createTable getChangesetsTableName
                         [copyHeader getChangesetsTableName
                            ''id, user_id, created_at, min_lat, max_lat, min_lon, max_lon, closed_at, num_changes'']
                         w
                  else w);
            (datestr, w2) = currentDateTime cfg w1
        in bind (writeLines getChangesetsTableName
                   [joinTab ([number (currentChangesetId w2), number (changesetUserId w2), datestr]
                             @ boundsColumns cfg (changesetBounds w2)
                             @ [datestr, number (changesInChangeset w2)])]
                   w2)
             (\<lambda>w3. Inr (w3\<lparr>changesInChangeset := 0\<rparr>)))"

text \<open>\<open>_incrementChangesInChangeset\<close>.\<close>

definition incrementChangesInChangeset :: "Config \<Rightarrow> Writer \<Rightarrow> Error + Writer" where
  "incrementChangesInChangeset cfg w =
     (let w1 = w\<lparr>changesInChangeset := changesInChangeset w + 1\<rparr>
      in if changesInChangeset w1 = maxChangesetSize cfg then
           bind (writeChangesetToTable cfg w1)
             (\<lambda>w2. Inr (w2\<lparr>currentChangesetId := currentChangesetId w2 + 1,
                           changesInChangeset := 0,
                           changesetBounds := None,
                           changesetsWritten := changesetsWritten w2 + 1\<rparr>))
         else Inr w1)"

subsection \<open>Relation members and forward references\<close>

text \<open>\<open>_writeRelationMember\<close>.\<close>

definition writeRelationMember :: "int \<Rightarrow> Entry \<Rightarrow> int \<Rightarrow> nat \<Rightarrow> Writer \<Rightarrow> Error + Writer" where
  "writeRelationMember sourceRelationDbId memberEntry memberDbId memberSequenceIndex w =
     (case (case entryType memberEntry of
              Node \<Rightarrow> Inr ''Node'' | Way \<Rightarrow> Inr ''Way'' | Relation \<Rightarrow> Inr ''Relation''
            | Unknown \<Rightarrow> Inl UnsupportedMemberType) of
        Inl e \<Rightarrow> Inl e
      | Inr memberType \<Rightarrow>
          bind (writeLines getCurrentRelationMembersTableName
                  [joinTab [number sourceRelationDbId, memberType, number memberDbId,
                            escapeCopyToData (entryRole memberEntry),
                            number (int memberSequenceIndex)]] w)
            (\<lambda>w1. bind (writeLines getRelationMembersTableName
                           [joinTab [number sourceRelationDbId, memberType, number memberDbId,
                                     escapeCopyToData (entryRole memberEntry), ''1'',
                                     number (int memberSequenceIndex)]] w1)
              (\<lambda>w2. Inr (w2\<lparr>relationMembersWritten := relationMembersWritten w2 + 1\<rparr>))))"

text \<open>
  The loop of \<open>_writeRelationMembersToTables\<close>. The unresolved references are a
  \<open>std::map\<close>: \<open>insert\<close> leaves the map as it is when the key is already there.
\<close>

fun writeRelationMembersLoop ::
  "int \<Rightarrow> int \<Rightarrow> Entry list \<Rightarrow> nat \<Rightarrow> Writer \<Rightarrow> Error + Writer" where
  "writeRelationMembersLoop relId dbRelationId [] memberSequenceIndex w = Inr w"
| "writeRelationMembersLoop relId dbRelationId (it # rest) memberSequenceIndex w =
     (case (case entryType it of
              Node \<Rightarrow> Inr (nodeIdMap w) | Way \<Rightarrow> Inr (wayIdMap w)
            | Relation \<Rightarrow> Inr (relationIdMap w) | Unknown \<Rightarrow> Inl UnsupportedMemberType) of
        Inl e \<Rightarrow> Inl e
      | Inr knownElementMap \<Rightarrow>
          bind (case (case knownElementMap of None \<Rightarrow> None | Some m \<Rightarrow> m (entryId it)) of
                  Some memberDbId \<Rightarrow>
                    writeRelationMember dbRelationId it memberDbId memberSequenceIndex w
                | None \<Rightarrow>
                    (let refs = (case unresolvedRelationRefs w of
                                   None \<Rightarrow> Map.empty | Some m \<Rightarrow> m);
                         relationRef = \<lparr>sourceRelationId = relId,
                                        sourceDbRelationId = dbRelationId,
                                        relationMemberData = it,
                                        relationMemberSequenceId = memberSequenceIndex\<rparr>;
                         key = (entryType it, entryId it)
                     in Inr (w\<lparr>unresolvedRelationRefs :=
                                 Some (if refs key = None then refs(key \<mapsto> relationRef)
                                       else refs)\<rparr>)))
            (\<lambda>w1. writeRelationMembersLoop relId dbRelationId rest (Suc memberSequenceIndex) w1))"

definition writeRelationMembersToTables :: "OsmRelation \<Rightarrow> Writer \<Rightarrow> Error + Writer" where
  "writeRelationMembersToTables relation w =
     (case (case relationIdMap w of None \<Rightarrow> None | Some m \<Rightarrow> m (relationId relation)) of
        None \<Rightarrow> Inl NullPointer
      | Some dbRelationId \<Rightarrow>
          writeRelationMembersLoop (relationId relation) dbRelationId
            (relationMembers relation) 1 w)"

text \<open>
  \<open>_checkUnresolvedReferences\<close>: \<open>find\<close> gives the one reference stored under the
  element's id, which is written and erased.
\<close>

definition checkUnresolvedReferences :: "ElementId \<Rightarrow> int \<Rightarrow> Writer \<Rightarrow> Error + Writer" where
  "checkUnresolvedReferences elementId elementDbId w =
     bind (case unresolvedRelationRefs w of
             None \<Rightarrow> Inr w
           | Some refs \<Rightarrow>
               (case refs elementId of
                  None \<Rightarrow> Inr w
                | Some relationRef \<Rightarrow>
                    bind (writeRelationMember (sourceDbRelationId relationRef)
                            (relationMemberData relationRef) elementDbId
                            (relationMemberSequenceId relationRef) w)
                      (\<lambda>w1. Inr (w1\<lparr>unresolvedRelationRefs := Some (refs(elementId := None))\<rparr>))))
       (\<lambda>w2. if fst elementId = Node \<and>
                 (case unresolvedWaynodeRefs w2 of
                    None \<Rightarrow> False | Some m \<Rightarrow> m (snd elementId) \<noteq> None)
              then Inl UnresolvedWaynodeRefFound
              else Inr w2)"

subsection \<open>Tags\<close>

text \<open>\<open>_writeTagsToTables\<close>, with the two format strings every caller passes.\<close>

fun writeTagsToTables :: "Tags \<Rightarrow> int \<Rightarrow> string \<Rightarrow> string \<Rightarrow> Writer \<Rightarrow> Error + Writer" where
  "writeTagsToTables [] dbId currentTable historicalTable w = Inr w"
| "writeTagsToTables ((k, v) # tags) dbId currentTable historicalTable w =
     bind (writeLines currentTable
             [joinTab [number dbId, escapeCopyToData k, escapeCopyToData v]] w)
       (\<lambda>w1. bind (writeLines historicalTable
                      [joinTab [number dbId, ''1'', escapeCopyToData k, escapeCopyToData v]] w1)
         (\<lambda>w2. writeTagsToTables tags dbId currentTable historicalTable w2))"

subsection \<open>Nodes\<close>

text \<open>
  \<open>_convertDegreesToNanodegrees\<close> returns \<open>unsigned int\<close>, and \<open>_writeNodeToTables\<close>
  stores the result in an \<open>int\<close>. The argument here is the rounded product. Outside the
  range of \<open>unsigned int\<close> the conversion is not defined by C++; the model takes the low
  32 bits, which is what the conversion through a 64-bit register yields.
\<close>

definition convertDegreesToNanodegrees :: "int \<Rightarrow> 32 word" where
  "convertDegreesToNanodegrees rounded = word_of_int rounded"

text \<open>\<open>const int changesetId = _changesetData.currentChangesetId\<close>: a \<open>long\<close> cut to \<open>int\<close>.\<close>

definition longToInt :: "int \<Rightarrow> int" where
  "longToInt x = sint (word_of_int x :: 32 word)"

definition writeNodeToTables :: "Config \<Rightarrow> OsmNode \<Rightarrow> int \<Rightarrow> Writer \<Rightarrow> Error + Writer" where
  "writeNodeToTables cfg node nodeDbId w =
     (let nodeYNanodegrees = sint (convertDegreesToNanodegrees (nodeYRounded node));
          nodeXNanodegrees = sint (convertDegreesToNanodegrees (nodeXRounded node));
          changesetId = longToInt (currentChangesetId w);
          (datestr, w1) = currentDateTime cfg w;
          tileNumberString = number (int (nodeTile node))
      in if nodeYNanodegrees < - 900000000 \<or> nodeYNanodegrees > 900000000
         then Inl InvalidLatitude
         else if nodeXNanodegrees < - 1800000000 \<or> nodeXNanodegrees > 1800000000
         then Inl InvalidLongitude
         else
           bind (writeLines getCurrentNodesTableName
                   [joinTab [number nodeDbId, number nodeYNanodegrees, number nodeXNanodegrees,
                             number changesetId, ''t'', datestr, tileNumberString, ''1'']] w1)
             (\<lambda>w2. writeLines getNodesTableName
                      [joinTab [number nodeDbId, number nodeYNanodegrees, number nodeXNanodegrees,
                                number changesetId, ''t'', datestr, tileNumberString, ''1'',
                                nullField]] w2))"

text \<open>\<open>writePartial(const ConstNodePtr&)\<close>.\<close>

definition writePartialNode :: "Config \<Rightarrow> OsmNode \<Rightarrow> Writer \<Rightarrow> Error + Writer" where
  "writePartialNode cfg n w =
     (let w1 = w\<lparr>changesetBounds :=
                   expandToInclude (changesetBounds w) (nodeXRounded n) (nodeYRounded n)\<rparr>;
          w2 = (if nodesWritten w1 = 0
                then (createNodeTables w1)\<lparr>nodeIdMap := Some Map.empty\<rparr>
                else w1)
      in case nodeIdMap w2 of
           None \<Rightarrow> Inl NullPointer
         | Some m \<Rightarrow>
             if m (nodeId n) \<noteq> None then Inl UpdateNotSupported
             else
               bind (establishNewIdMapping (Node, nodeId n) w2) (\<lambda>(nodeDbId, w3).
               bind (writeNodeToTables cfg n nodeDbId w3) (\<lambda>w4.
               bind (writeTagsToTables (nodeTags n) nodeDbId
                       getCurrentNodeTagsTableName getNodeTagsTableName w4) (\<lambda>w5.
               bind (incrementChangesInChangeset cfg
                       (w5\<lparr>nodesWritten := nodesWritten w5 + 1,
                           nodeTagsWritten := nodeTagsWritten w5 + int (length (nodeTags n))\<rparr>))
                 (\<lambda>w6. checkUnresolvedReferences (Node, nodeId n) nodeDbId w6)))))"

subsection \<open>Ways\<close>

text \<open>\<open>_writeWayToTables\<close> and \<open>_writeRelationToTables\<close> write the same two rows.\<close>

definition writeElementRows :: "Config \<Rightarrow> string \<Rightarrow> string \<Rightarrow> int \<Rightarrow> Writer \<Rightarrow> Error + Writer" where
  "writeElementRows cfg currentTable historicalTable dbId w =
     (let changesetId = longToInt (currentChangesetId w);
          (datestr, w1) = currentDateTime cfg w
      in bind (writeLines currentTable
                 [joinTab [number dbId, number changesetId, datestr, ''t'', ''1'']] w1)
           (\<lambda>w2. writeLines historicalTable
                    [joinTab [number dbId, number changesetId, datestr, ''1'', ''t'', nullField]]
                    w2))"

definition writeWayToTables :: "Config \<Rightarrow> int \<Rightarrow> Writer \<Rightarrow> Error + Writer" where
  "writeWayToTables cfg wayDbId w =
     writeElementRows cfg getCurrentWaysTableName getWaysTableName wayDbId w"

text \<open>
  The loop of \<open>_writeWaynodesToTables\<close>; the node map is dereferenced without a null
  check.
\<close>

fun writeWaynodesLoop :: "int \<Rightarrow> int list \<Rightarrow> nat \<Rightarrow> Writer \<Rightarrow> Error + Writer" where
  "writeWaynodesLoop dbWayId [] nodeIndex w = Inr w"
| "writeWaynodesLoop dbWayId (it # rest) nodeIndex w =
     (case nodeIdMap w of
        None \<Rightarrow> Inl NullPointer
      | Some m \<Rightarrow>
          (case m it of
             None \<Rightarrow> Inl UnresolvedWayNode
           | Some dbNodeId \<Rightarrow>
               bind (writeLines getCurrentWayNodesTableName
                       [joinTab [number dbWayId, number dbNodeId, number (int nodeIndex)]] w)
                 (\<lambda>w1. bind (writeLines getWayNodesTableName
                                [joinTab [number dbWayId, number dbNodeId, ''1'',
                                          number (int nodeIndex)]] w1)
                   (\<lambda>w2. writeWaynodesLoop dbWayId rest (Suc nodeIndex) w2))))"

definition writeWaynodesToTables :: "int \<Rightarrow> int list \<Rightarrow> Writer \<Rightarrow> Error + Writer" where
  "writeWaynodesToTables dbWayId waynodeIds w = writeWaynodesLoop dbWayId waynodeIds 1 w"

text \<open>\<open>writePartial(const ConstWayPtr&)\<close>.\<close>

definition writePartialWay :: "Config \<Rightarrow> OsmWay \<Rightarrow> Writer \<Rightarrow> Error + Writer" where
  "writePartialWay cfg way w =
     (let w2 = (if waysWritten w = 0
                then (createWayTables w)\<lparr>wayIdMap := Some Map.empty\<rparr>
                else w)
      in case wayIdMap w2 of
           None \<Rightarrow> Inl NullPointer
         | Some m \<Rightarrow>
             if m (wayId way) \<noteq> None then Inl UpdateNotSupported
             else
               bind (establishNewIdMapping (Way, wayId way) w2) (\<lambda>(wayDbId, w3).
               bind (writeWayToTables cfg wayDbId w3) (\<lambda>w4.
               bind (case (case wayIdMap w4 of None \<Rightarrow> None | Some m4 \<Rightarrow> m4 (wayId way)) of
                       None \<Rightarrow> Inl NullPointer
                     | Some dbWayId \<Rightarrow> writeWaynodesToTables dbWayId (wayNodeIds way) w4) (\<lambda>w5.
               bind (writeTagsToTables (wayTags way) wayDbId
                       getCurrentWayTagsTableName getWayTagsTableName w5) (\<lambda>w6.
               bind (incrementChangesInChangeset cfg
                       (w6\<lparr>waysWritten := waysWritten w6 + 1,
                           wayTagsWritten := wayTagsWritten w6 + int (length (wayTags way)),
                           wayNodesWritten := wayNodesWritten w6 + int (length (wayNodeIds way))\<rparr>))
                 (\<lambda>w7. checkUnresolvedReferences (Way, wayId way) wayDbId w7))))))"

subsection \<open>Relations\<close>

definition writeRelationToTables :: "Config \<Rightarrow> int \<Rightarrow> Writer \<Rightarrow> Error + Writer" where
  "writeRelationToTables cfg relationDbId w =
     writeElementRows cfg getCurrentRelationsTableName getRelationsTableName relationDbId w"

text \<open>\<open>writePartial(const ConstRelationPtr&)\<close>.\<close>

definition writePartialRelation :: "Config \<Rightarrow> OsmRelation \<Rightarrow> Writer \<Rightarrow> Error + Writer" where
  "writePartialRelation cfg r w =
     (let w2 = (if relationsWritten w = 0
                then (createRelationTables w)\<lparr>relationIdMap := Some Map.empty\<rparr>
                else w)
      in case relationIdMap w2 of
           None \<Rightarrow> Inl NullPointer
         | Some m \<Rightarrow>
             if m (relationId r) \<noteq> None then Inl UpdateNotSupported
             else
               bind (establishNewIdMapping (Relation, relationId r) w2) (\<lambda>(relationDbId, w3).
               bind (writeRelationToTables cfg relationDbId w3) (\<lambda>w4.
               bind (writeRelationMembersToTables r w4) (\<lambda>w5.
               bind (writeTagsToTables (relationTags r) relationDbId
                       getCurrentRelationTagsTableName getRelationTagsTableName w5) (\<lambda>w6.
               bind (incrementChangesInChangeset cfg
                       (w6\<lparr>relationsWritten := relationsWritten w6 + 1,
                           relationTagsWritten :=
                             relationTagsWritten w6 + int (length (relationTags r)),
                           relationMembersWritten :=
                             relationMembersWritten w6 + int (length (relationMembers r))\<rparr>))
                 (\<lambda>w7. checkUnresolvedReferences (Relation, relationId r) relationDbId w7))))))"

subsection \<open>A stream of elements\<close>

fun writePartial :: "Config \<Rightarrow> Element \<Rightarrow> Writer \<Rightarrow> Error + Writer" where
  "writePartial cfg (NodeElement n) w = writePartialNode cfg n w"
| "writePartial cfg (WayElement way) w = writePartialWay cfg way w"
| "writePartial cfg (RelationElement r) w = writePartialRelation cfg r w"

text \<open>The caller's loop: an exception ends the session.\<close>

fun writeAll :: "Config \<Rightarrow> Element list \<Rightarrow> Writer \<Rightarrow> Error + Writer" where
  "writeAll cfg [] w = Inr w"
| "writeAll cfg (e # es) w = bind (writePartial cfg e w) (writeAll cfg es)"


section \<open>Finalizing\<close>

subsection \<open>Sequences\<close>

text \<open>\<open>_getLatestIdsFromDb\<close>.\<close>

definition getLatestIdsFromDb :: "Config \<Rightarrow> Writer \<Rightarrow> Writer" where
  "getLatestIdsFromDb cfg w =
     (let w1 = w\<lparr>currentNodeId := nextNodeId cfg,
                  currentWayId := nextWayId cfg,
                  currentRelationId := nextRelationId cfg,
                  currentChangesetId := nextChangesetId cfg\<rparr>
      in if mode cfg = ''online''
         then w1\<lparr>currentNodeId := currentNodeId w1 - 1,
                 currentWayId := currentWayId w1 - 1,
                 currentRelationId := currentRelationId w1 - 1,
                 currentChangesetId := currentChangesetId w1 - 1\<rparr>
         else w1)"

definition setval :: "string \<Rightarrow> int \<Rightarrow> string" where
  "setval sequenceName v =
     ''SELECT pg_catalog.setval('' @ [CHR 0x27] @ sequenceName @ [CHR 0x27] @ '', '' @
     number v @ '');''"

text \<open>
  \<open>_writeSequenceUpdates\<close>: the section is created anew; the statement for relations is
  followed by two more line feeds.
\<close>

definition writeSequenceUpdates ::
  "Config \<Rightarrow> int \<Rightarrow> int \<Rightarrow> int \<Rightarrow> int \<Rightarrow> Writer \<Rightarrow> Error + Writer" where
  "writeSequenceUpdates cfg changesetSeqId nodeSeqId waySeqId relationSeqId w =
     (let w1 = createTable ''sequence_updates'' [] w
      in if assertsEnabled cfg \<and> \<not> changesetSeqId > 0 then Inl AssertionFailed
         else bind (writeLines ''sequence_updates'' [setval getChangesetsSequenceName changesetSeqId] w1)
           (\<lambda>w2. if assertsEnabled cfg \<and> \<not> nodeSeqId > 0 then Inl AssertionFailed
                  else bind (writeLines ''sequence_updates''
                               [setval getCurrentNodesSequenceName nodeSeqId] w2)
             (\<lambda>w3. bind (if waySeqId > 0
                          then writeLines ''sequence_updates''
                                 [setval getCurrentWaysSequenceName waySeqId] w3
                          else Inr w3)
               (\<lambda>w4. if relationSeqId > 0
                      then writeLines ''sequence_updates''
                             [setval getCurrentRelationsSequenceName relationSeqId, [], []] w4
                      else Inr w4))))"

subsection \<open>Assembling the script\<close>

text \<open>
  A script is the list of lines \<open>QTextStream::readLine\<close> reads from it.

  One round of the loop of \<open>_writeCombinedSqlFile\<close>: a section that was never created,
  and the sequence updates in online mode, add nothing. Otherwise the close marker and
  two line feeds are appended to a copy section, and the file is copied by a loop that
  writes every line it reads, and then the null string that \<open>readLine\<close> returns at the end
  of the file, each followed by a line feed.
\<close>

definition sectionText :: "Config \<Rightarrow> Writer \<Rightarrow> string \<Rightarrow> string list" where
  "sectionText cfg w it =
     (case outputSections w it of
        None \<Rightarrow> []
      | Some content \<Rightarrow>
          if mode cfg = ''online'' \<and> it = ''sequence_updates'' then []
          else content
               @ (if it \<noteq> ''byte_order_mark'' \<and> it \<noteq> ''sequence_updates''
                  then [terminator, [], []] else [])
               @ [[]])"

text \<open>
  \<open>_writeCombinedSqlFile\<close>. The temporary files are removed once copied; nothing reads
  them again, and the model leaves the writer as it is.
\<close>

definition writeCombinedSqlFile :: "Config \<Rightarrow> Writer \<Rightarrow> string list" where
  "writeCombinedSqlFile cfg w =
     ''BEGIN TRANSACTION;'' # concat (map (sectionText cfg w) createSectionNameList)
     @ [''COMMIT;'']"

subsection \<open>Reserving ids in online mode\<close>

text \<open>
  \<open>_lockIds\<close>: the result is the SQL that is executed against the database in a
  transaction of its own, and the writer with the ids read from the database.
\<close>

definition lockIds :: "Config \<Rightarrow> Writer \<Rightarrow> Error + (string list \<times> Writer)" where
  "lockIds cfg w =
     (if nodesWritten w = 0 then Inl CannotLockIds
      else
        let w1 = getLatestIdsFromDb cfg w
        in bind (writeSequenceUpdates cfg
                   (currentChangesetId w1 + changesetsWritten w1)
                   (currentNodeId w1 + nodesWritten w1)
                   (currentWayId w1 + waysWritten w1)
                   (currentRelationId w1 + relationsWritten w1) w1)
             (\<lambda>w2. case outputSections w2 ''sequence_updates'' of
                      None \<Rightarrow> Inl NullPointer
                    | Some lockElementIdsSql \<Rightarrow> Inr (lockElementIdsSql, w2)))"

subsection \<open>Rewriting the ids in online mode\<close>

text \<open>\<open>lineParts[i] = QString::number(lineParts[i].toLong() + offset)\<close>.\<close>

definition addOffset :: "nat \<Rightarrow> int \<Rightarrow> string list \<Rightarrow> Error + string list" where
  "addOffset i offset lineParts =
     (if i < length lineParts
      then Inr (lineParts[i := number (toLong (lineParts ! i) + offset)])
      else Inl IndexOutOfRange)"

text \<open>
  The branch of \<open>_updateIdOffsetsInNewFile\<close> for a line that is neither a header, nor
  empty, nor the close marker: the chain of comparisons of the current table name.
\<close>

definition updateLine :: "Writer \<Rightarrow> string \<Rightarrow> string \<Rightarrow> Error + string" where
  "updateLine w currentTableName line =
     (let lineParts = splitTab line
      in if currentTableName = getChangesetsTableName then
           bind (addOffset 0 (currentChangesetId w) lineParts) (\<lambda>p. Inr (joinTab p))
         else if currentTableName = getCurrentNodesTableName \<or>
                 currentTableName = getNodesTableName then
           bind (addOffset 0 (currentNodeId w) lineParts) (\<lambda>p.
           bind (addOffset 3 (currentChangesetId w) p) (\<lambda>p. Inr (joinTab p)))
         else if currentTableName = getCurrentWaysTableName \<or>
                 currentTableName = getWaysTableName then
           bind (addOffset 0 (currentWayId w) lineParts) (\<lambda>p.
           bind (addOffset 1 (currentChangesetId w) p) (\<lambda>p. Inr (joinTab p)))
         else if currentTableName = getCurrentWayNodesTableName \<or>
                 currentTableName = getWayNodesTableName then
           bind (addOffset 0 (currentWayId w) lineParts) (\<lambda>p.
           bind (addOffset 1 (currentNodeId w) p) (\<lambda>p. Inr (joinTab p)))
         else if currentTableName = getCurrentRelationsTableName \<or>
                 currentTableName = getRelationsTableName then
           bind (addOffset 0 (currentRelationId w) lineParts) (\<lambda>p.
           bind (addOffset 1 (currentChangesetId w) p) (\<lambda>p. Inr (joinTab p)))
         else if currentTableName = getCurrentRelationMembersTableName \<or>
                 currentTableName = getRelationMembersTableName then
           bind (addOffset 0 (currentRelationId w) lineParts) (\<lambda>p.
             if 2 < length p then
               (let memberId = toLong (p ! 2)
                in if toLower (p ! 1) = ''node''
                   then Inr (joinTab (p[2 := number (memberId + currentNodeId w)]))
                   else if toLower (p ! 1) = ''way''
                   then Inr (joinTab (p[2 := number (memberId + currentWayId w)]))
                   else Inr (joinTab p))
             else Inl IndexOutOfRange)
         else if currentTableName = getCurrentNodeTagsTableName \<or>
                 currentTableName = getNodeTagsTableName then
           bind (addOffset 0 (currentNodeId w) lineParts) (\<lambda>p. Inr (joinTab p))
         else if currentTableName = getCurrentWayTagsTableName \<or>
                 currentTableName = getWayTagsTableName then
           bind (addOffset 0 (currentWayId w) lineParts) (\<lambda>p. Inr (joinTab p))
         else if currentTableName = getCurrentRelationTagsTableName \<or>
                 currentTableName = getRelationTagsTableName then
           bind (addOffset 0 (currentRelationId w) lineParts) (\<lambda>p. Inr (joinTab p))
         else Inr line)"

text \<open>
  The loop of \<open>_updateIdOffsetsInNewFile\<close> from a given current table name on. After the
  last line of the input the loop body runs once more on the null string, which is written
  as one more empty line.
\<close>

fun updateLines :: "Writer \<Rightarrow> string \<Rightarrow> string list \<Rightarrow> Error + string list" where
  "updateLines w currentTableName [] = Inr [[]]"
| "updateLines w currentTableName (l # ls) =
     (let line = trimmed l
      in if contains ''COPY'' line then
           (case splitSpace line of
              _ # t # _ \<Rightarrow>
                bind (updateLines w (trimmed t) ls) (\<lambda>out. Inr (line # out))
            | _ \<Rightarrow> Inl IndexOutOfRange)
         else if line \<noteq> [] \<and> line \<noteq> terminator then
           bind (updateLine w currentTableName line) (\<lambda>line'.
           bind (updateLines w currentTableName ls) (\<lambda>out. Inr (line' # out)))
         else bind (updateLines w [] ls) (\<lambda>out. Inr (line # out)))"

definition updateIdOffsetsInNewFile :: "Writer \<Rightarrow> string list \<Rightarrow> Error + string list" where
  "updateIdOffsetsInNewFile w inputSqlFile = updateLines w [] inputSqlFile"

subsection \<open>The public operations\<close>

text \<open>
  What \<open>finalizePartial\<close> leaves behind when it returns: nothing when no element was
  written, otherwise the final script, the SQL executed to reserve ids (online mode), and
  the writer. Copying the script to a configured place and running it through \<open>psql\<close>
  happen outside the writer.
\<close>

record Outcome =
  script :: "string list"
  executedSql :: "string list"
  finalWriter :: Writer

datatype FinalizeResult = NoDataWritten | Finished Outcome

text \<open>
  \<open>finalizePartial\<close>. An exception comes with the SQL already executed against the
  database at that point.
\<close>

definition finalizePartial :: "Config \<Rightarrow> Writer \<Rightarrow> (Error \<times> string list) + FinalizeResult" where
  "finalizePartial cfg w =
     (if nodesWritten w = 0 \<and> waysWritten w = 0 \<and> relationsWritten w = 0
      then Inr NoDataWritten
      else
        let w1 = createTable ''byte_order_mark'' [[]] w
        in case (if changesInChangeset w1 > 0 then writeChangesetToTable cfg w1 else Inr w1) of
             Inl e \<Rightarrow> Inl (e, [])
           | Inr w2 \<Rightarrow>
               (let w3 = (if changesetsWritten w2 = 0
                          then w2\<lparr>changesetsWritten := changesetsWritten w2 + 1\<rparr>
                          else w2)
                in case (if mode cfg = ''offline''
                         then writeSequenceUpdates cfg
                                (currentChangesetId w3 - 1) (currentNodeId w3 - 1)
                                (currentWayId w3 - 1) (currentRelationId w3 - 1) w3
                         else Inr w3) of
                     Inl e \<Rightarrow> Inl (e, [])
                   | Inr w4 \<Rightarrow>
                       (let sqlOutputFile = writeCombinedSqlFile cfg w4
                        in if mode cfg = ''online'' then
                             (case lockIds cfg w4 of
                                Inl e \<Rightarrow> Inl (e, [])
                              | Inr (lockElementIdsSql, w5) \<Rightarrow>
                                  (case updateIdOffsetsInNewFile w5 sqlOutputFile of
                                     Inl e \<Rightarrow> Inl (e, lockElementIdsSql)
                                   | Inr finalSqlOutputFile \<Rightarrow>
                                       Inr (Finished \<lparr>script = finalSqlOutputFile,
                                                      executedSql = lockElementIdsSql,
                                                      finalWriter = w5\<rparr>)))
                           else Inr (Finished \<lparr>script = sqlOutputFile,
                                               executedSql = [],
                                               finalWriter = w4\<rparr>))))"

text \<open>\<open>_reset\<close>, and the bounds of a writer that has just been constructed.\<close>

definition reset :: Writer where
  "reset =
     \<lparr>nodesWritten = 0, nodeTagsWritten = 0, waysWritten = 0, wayNodesWritten = 0,
      wayTagsWritten = 0, relationsWritten = 0, relationMembersWritten = 0,
      relationTagsWritten = 0, changesetUserId = - 1, currentChangesetId = 1,
      changesInChangeset = 0, changesetsWritten = 0, changesetBounds = None,
      currentNodeId = 1, nodeIdMap = None, currentWayId = 1, wayIdMap = None,
      currentRelationId = 1, relationIdMap = None, unresolvedWaynodeRefs = None,
      unresolvedRelationRefs = None, outputSections = Map.empty, clockReads = 0\<rparr>"

text \<open>\<open>setConfiguration\<close>, as far as it reaches the state modelled here.\<close>

definition setConfiguration :: "Config \<Rightarrow> Writer \<Rightarrow> Writer" where
  "setConfiguration cfg w = w\<lparr>changesetUserId := confChangesetUserId cfg\<rparr>"

text \<open>
  The constructor followed by \<open>open\<close> on a supported URL: in offline mode the ids are read
  from the database at once.
\<close>

definition openWriter :: "Config \<Rightarrow> Writer" where
  "openWriter cfg =
     (let w = setConfiguration cfg reset
      in if mode cfg = ''offline'' then getLatestIdsFromDb cfg w else w)"

text \<open>A whole session: open, write the stream, finalize.\<close>

definition session :: "Config \<Rightarrow> Element list \<Rightarrow> (Error \<times> string list) + FinalizeResult" where
  "session cfg es =
     (case writeAll cfg es (openWriter cfg) of
        Inl e \<Rightarrow> Inl (e, [])
      | Inr w \<Rightarrow> finalizePartial cfg w)"

section \<open>Reading a script\<close>

text \<open>
  The rows a bulk-load client reads for one \<open>COPY\<close> statement: the lines after the
  statement, up to the close marker.
\<close>

definition sectionRows :: "string \<Rightarrow> string list \<Rightarrow> string list" where
  "sectionRows header lines = takeWhile (\<lambda>l. l \<noteq> terminator) (tl (dropWhile (\<lambda>l. l \<noteq> header) lines))"

text \<open>The i-th column of a row.\<close>

definition column :: "nat \<Rightarrow> string \<Rightarrow> string" where
  "column i row = splitTab row ! i"


section \<open>Sample sessions\<close>

text \<open>
  Concrete inputs used further down: an offline session on an empty database (every
  sequence starts at 1) with user 17 and at most 10 changes in a changeset, a node at
  latitude 1.0 and longitude 2.0, two relations that both have the way with source id -50
  as a member, and that way.
\<close>

definition sampleTime :: DateTime where
  "sampleTime = \<lparr>year = 2017, month = 3, day = 9, hour = 1, minute = 2, second = 3, msec = 45\<rparr>"

definition sampleOffline :: Config where
  "sampleOffline =
     \<lparr>mode = ''offline'', confChangesetUserId = 17, maxChangesetSize = 10,
      assertsEnabled = False, nextNodeId = 1, nextWayId = 1, nextRelationId = 1,
      nextChangesetId = 1, clock = (\<lambda>_. sampleTime), nullEnvelope = (0, 0, 0, 0)\<rparr>"

definition sampleNode :: OsmNode where
  "sampleNode =
     \<lparr>nodeId = - 1, nodeTags = [], nodeYRounded = 10000000, nodeXRounded = 20000000,
      nodeTile = 77\<rparr>"

definition relationA :: OsmRelation where
  "relationA =
     \<lparr>relationId = - 100, relationTags = [],
      relationMembers = [\<lparr>entryRole = ''a'', entryType = Way, entryId = - 50\<rparr>]\<rparr>"

definition relationB :: OsmRelation where
  "relationB =
     \<lparr>relationId = - 101, relationTags = [],
      relationMembers = [\<lparr>entryRole = ''b'', entryType = Way, entryId = - 50\<rparr>]\<rparr>"

definition way50 :: OsmWay where
  "way50 = \<lparr>wayId = - 50, wayTags = [], wayNodeIds = []\<rparr>"

text \<open>The ids read from the database in an online session: bases 100, 1000, 2000, 3000.\<close>

definition sampleBases :: Writer where
  "sampleBases =
     reset\<lparr>currentChangesetId := 100, currentNodeId := 1000, currentWayId := 2000,
           currentRelationId := 3000\<rparr>"

definition sampleOnline :: Config where
  "sampleOnline =
     sampleOffline\<lparr>mode := ''online'', nextNodeId := 1001, nextWayId := 2001,
                   nextRelationId := 3001, nextChangesetId := 101\<rparr>"

text \<open>A node at latitude 91.0 and longitude 181.0.\<close>

definition farNode :: OsmNode where
  "farNode = sampleNode\<lparr>nodeYRounded := 910000000, nodeXRounded := 1810000000\<rparr>"


text \<open>
  A second node, with source id -2 and one tag, and the offline session on a database whose
  next node id is 500.
\<close>

definition secondNode :: OsmNode where
  "secondNode = sampleNode\<lparr>nodeId := - 2, nodeTags := [(''name'', ''a'')]\<rparr>"

definition offlineFrom500 :: Config where
  "offlineFrom500 = sampleOffline\<lparr>nextNodeId := 500\<rparr>"


section \<open>Notions for stating and proving properties\<close>

text \<open>\<open>getElementId\<close>: the kind and the source id of an element.\<close>

definition elementIdOf :: "Element \<Rightarrow> ElementId" where
  "elementIdOf e =
     (case e of NodeElement n \<Rightarrow> (Node, nodeId n) | WayElement w \<Rightarrow> (Way, wayId w)
      | RelationElement r \<Rightarrow> (Relation, relationId r))"

text \<open>The source ids of the elements of one kind in a stream, in order.\<close>

definition idsOfKind :: "ElementType \<Rightarrow> Element list \<Rightarrow> int list" where
  "idsOfKind k es = map snd (filter (\<lambda>i. fst i = k) (map elementIdOf es))"

text \<open>The counters of written elements, the id maps and the next local ids of a writer.\<close>

definition coreOf where
  "coreOf w = (nodesWritten w, waysWritten w, relationsWritten w, nodeIdMap w, wayIdMap w,
     relationIdMap w, currentNodeId w, currentWayId w, currentRelationId w, changesetUserId w,
     unresolvedWaynodeRefs w)"

text \<open>The state of the changeset accumulator.\<close>

definition csOf where
  "csOf w = (currentChangesetId w, changesInChangeset w, changesetsWritten w, changesetBounds w)"

text \<open>Two writers hold the same text in every section outside a set of tables.\<close>

definition sameOutside :: "string set \<Rightarrow> Writer \<Rightarrow> Writer \<Rightarrow> bool" where
  "sameOutside T w w' = (\<forall>t. t \<notin> T \<longrightarrow> outputSections w' t = outputSections w t)"

text \<open>A step that leaves counters, id maps and the changeset accumulator alone and writes only to the given tables.\<close>

definition quiet :: "string set \<Rightarrow> Writer \<Rightarrow> Writer \<Rightarrow> bool" where
  "quiet T w w' = (coreOf w' = coreOf w \<and> csOf w' = csOf w \<and> sameOutside T w w')"

text \<open>The writer after the first lines of \<open>writePartial\<close> for a node: bounds expanded, and on the first node the node sections and the node id map created.\<close>

definition nodePrelude :: "OsmNode \<Rightarrow> Writer \<Rightarrow> Writer" where
  "nodePrelude n w =
     (let w1 = w\<lparr>changesetBounds :=
                   expandToInclude (changesetBounds w) (nodeXRounded n) (nodeYRounded n)\<rparr>
      in if nodesWritten w1 = 0
         then (createNodeTables w1)\<lparr>nodeIdMap := Some Map.empty\<rparr>
         else w1)"

text \<open>The same for a way.\<close>

definition wayPrelude :: "Writer \<Rightarrow> Writer" where
  "wayPrelude w =
     (if waysWritten w = 0 then (createWayTables w)\<lparr>wayIdMap := Some Map.empty\<rparr> else w)"

text \<open>The same for a relation.\<close>

definition relationPrelude :: "Writer \<Rightarrow> Writer" where
  "relationPrelude w =
     (if relationsWritten w = 0
      then (createRelationTables w)\<lparr>relationIdMap := Some Map.empty\<rparr> else w)"

text \<open>For one kind: the counter is the number of elements written, and once there is one, the id map holds exactly their source ids.\<close>

definition kindInv :: "ElementType \<Rightarrow> Element list \<Rightarrow> int \<Rightarrow> (int \<rightharpoonup> int) option \<Rightarrow> bool" where
  "kindInv k es written idMap =
     (written = int (length (idsOfKind k es)) \<and>
      (idsOfKind k es \<noteq> [] \<longrightarrow> (\<exists>m. idMap = Some m \<and> dom m = set (idsOfKind k es))))"

text \<open>The invariant that links a writer to the stream written so far.\<close>

definition idInv :: "Element list \<Rightarrow> Writer \<Rightarrow> bool" where
  "idInv es w =
     (kindInv Node es (nodesWritten w) (nodeIdMap w) \<and>
      kindInv Way es (waysWritten w) (wayIdMap w) \<and>
      kindInv Relation es (relationsWritten w) (relationIdMap w))"

text \<open>The two range checks of \<open>_writeNodeToTables\<close>.\<close>

definition latitudeOutOfRange :: "OsmNode \<Rightarrow> bool" where
  "latitudeOutOfRange n =
     (sint (convertDegreesToNanodegrees (nodeYRounded n)) < - 900000000 \<or>
      sint (convertDegreesToNanodegrees (nodeYRounded n)) > 900000000)"

definition longitudeOutOfRange :: "OsmNode \<Rightarrow> bool" where
  "longitudeOutOfRange n =
     (sint (convertDegreesToNanodegrees (nodeXRounded n)) < - 1800000000 \<or>
      sint (convertDegreesToNanodegrees (nodeXRounded n)) > 1800000000)"

text \<open>The number of changes a changeset row carries: its ninth column, \<open>num_changes\<close>.\<close>

definition numChanges :: "string \<Rightarrow> int" where
  "numChanges row = toLong (column 8 row)"

text \<open>The rows written to the section \<open>changesets\<close>.\<close>

definition changesetRows :: "Writer \<Rightarrow> string list" where
  "changesetRows w =
     (case outputSections w getChangesetsTableName of None \<Rightarrow> [] | Some content \<Rightarrow> tl content)"

text \<open>A line that begins as a number does; every row of every table begins with an id.\<close>

definition rowLike :: "string \<Rightarrow> bool" where
  "rowLike l = (l \<noteq> [] \<and> hd l \<in> set ''-0123456789'')"

definition changesetsHeader :: string where
  "changesetsHeader =
     copyHeader getChangesetsTableName
       ''id, user_id, created_at, min_lat, max_lat, min_lon, max_lon, closed_at, num_changes''"

text \<open>What the changeset invariant depends on.\<close>

definition csView :: "Writer \<Rightarrow> int \<times> int \<times> string list option" where
  "csView w = (changesInChangeset w, currentChangesetId w, outputSections w getChangesetsTableName)"

text \<open>The invariant of the changeset accumulator after \<open>written\<close> element writes: the rows flushed so far and the changes of the current changeset add up to \<open>written\<close>, every flushed row is within the limit, and the section exists exactly when the first changeset has been flushed.\<close>

definition csInv :: "Config \<Rightarrow> int \<Rightarrow> Writer \<Rightarrow> bool" where
  "csInv cfg written w =
     (0 \<le> changesInChangeset w \<and> changesInChangeset w < maxChangesetSize cfg \<and>
      (case outputSections w getChangesetsTableName of
         None \<Rightarrow> changesInChangeset w = written
       | Some content \<Rightarrow>
           1 < currentChangesetId w \<and> content \<noteq> [] \<and> hd content = changesetsHeader \<and>
           list_all rowLike (tl content) \<and>
           list_all (\<lambda>r. 0 < numChanges r \<and> numChanges r \<le> maxChangesetSize cfg) (tl content) \<and>
           sum_list (map numChanges (tl content)) + changesInChangeset w = written))"

text \<open>The first steps of \<open>finalizePartial\<close> once data was written: the section of the byte order mark, the flush of an unfinished changeset, and the adjustment of the changeset count.\<close>

definition flushFinal :: "Config \<Rightarrow> Writer \<Rightarrow> Error + Writer" where
  "flushFinal cfg w =
     (let w1 = createTable ''byte_order_mark'' [[]] w
      in bind (if changesInChangeset w1 > 0 then writeChangesetToTable cfg w1 else Inr w1)
           (\<lambda>w2. Inr (if changesetsWritten w2 = 0
                       then w2\<lparr>changesetsWritten := changesetsWritten w2 + 1\<rparr>
                       else w2)))"

text \<open>The header lines \<open>_createNodeTables\<close> writes to the sections \<open>current_nodes\<close>, \<open>nodes\<close> and \<open>current_node_tags\<close>.\<close>

definition currentNodesHeader :: string where
  "currentNodesHeader =
     copyHeader getCurrentNodesTableName
       (''id, latitude, longitude, changeset_id, visible, '' @ quotedTimestamp @ '', tile, version'')"

definition nodesHeader :: string where
  "nodesHeader =
     copyHeader getNodesTableName
       (''node_id, latitude, longitude, changeset_id, visible, '' @ quotedTimestamp @ '', tile, version, redaction_id'')"

definition currentNodeTagsHeader :: string where
  "currentNodeTagsHeader = copyHeader getCurrentNodeTagsTableName ''node_id, k, v''"

text \<open>A row of a node section that carries the id \<open>i\<close>: the eight columns \<open>_writeNodeToTables\<close> writes, followed in the section \<open>nodes\<close> by the null redaction id.\<close>

definition nodeRow :: "int \<Rightarrow> string \<Rightarrow> bool" where
  "nodeRow i r =
     (\<exists>y x c d t rest.
        r = joinTab ([number i, number y, number x, number c, ''t'', datestring d, number t, ''1'']
                     @ rest) \<and>
        (rest = [] \<or> rest = [nullField]))"

text \<open>A section that holds a given header and, after it, rows that begin as a number does.\<close>

definition shaped :: "string \<Rightarrow> string list \<Rightarrow> bool" where
  "shaped h c = (\<exists>rows. c = h # rows \<and> list_all rowLike rows)"

text \<open>The ids given to \<open>k\<close> elements in a row, from \<open>f\<close> on.\<close>

definition localIds :: "int \<Rightarrow> nat \<Rightarrow> int list" where
  "localIds f k = map (\<lambda>i. f + int i) [0..<k]"

text \<open>The node sections once \<open>k\<close> nodes are written with the ids from \<open>f\<close> on: one row for each id, in order, in \<open>current_nodes\<close> and in \<open>nodes\<close>.\<close>

definition nodeSections :: "int \<Rightarrow> nat \<Rightarrow> Writer \<Rightarrow> bool" where
  "nodeSections f k w =
     (\<exists>rc rn rt.
        outputSections w getCurrentNodesTableName = Some (currentNodesHeader # rc) \<and>
        list_all2 nodeRow (localIds f k) rc \<and>
        outputSections w getNodesTableName = Some (nodesHeader # rn) \<and>
        list_all2 nodeRow (localIds f k) rn \<and>
        outputSections w getCurrentNodeTagsTableName = Some (currentNodeTagsHeader # rt) \<and>
        list_all rowLike rt)"

text \<open>The section \<open>changesets\<close>, when it exists, holds its header and rows.\<close>

definition changesetsShaped :: "Writer \<Rightarrow> bool" where
  "changesetsShaped w =
     (case outputSections w getChangesetsTableName of
        None \<Rightarrow> True | Some c \<Rightarrow> shaped changesetsHeader c)"

text \<open>The invariant of a stream of nodes after \<open>k\<close> of them: the counter, the next local id, and the sections.\<close>

definition nodeInv :: "int \<Rightarrow> nat \<Rightarrow> Writer \<Rightarrow> bool" where
  "nodeInv f k w =
     (nodesWritten w = int k \<and> currentNodeId w = f + int k \<and> changesetsShaped w \<and>
      (0 < k \<longrightarrow> nodeSections f k w))"

text \<open>A line of the section \<open>sequence_updates\<close>: empty, or a \<open>setval\<close> statement.\<close>

definition seqLine :: "string \<Rightarrow> bool" where
  "seqLine l = (l = [] \<or> (\<exists>s v. l = setval s v))"

section \<open>The encoder\<close>

lemma replace_char_append:
  "replace_char c r (a @ b) = replace_char c r a @ replace_char c r b"
  by (simp add: replace_char_def)

lemma escapeCopyToData_append:
  "escapeCopyToData (a @ b) = escapeCopyToData a @ escapeCopyToData b"
  by (simp add: escapeCopyToData_def replace_char_append)

lemma escapeCopyToData_Nil: "escapeCopyToData [] = []"
  by (simp add: escapeCopyToData_def replace_char_def)

lemma escapeCopyToData_single: "escapeCopyToData [c] = escape_char c"
  by (simp add: escapeCopyToData_def replace_char_def escape_char_def)

lemma escapeCopyToData_Cons:
  "escapeCopyToData (c # s) = escape_char c @ escapeCopyToData s"
  using escapeCopyToData_append [of "[c]" s] by (simp add: escapeCopyToData_single)

lemma escapeCopyToData_chars: "escapeCopyToData s = concat (map escape_char s)"
  by (induction s) (simp_all add: escapeCopyToData_Nil escapeCopyToData_Cons)

lemma escape_char_not_Nil: "escape_char c \<noteq> []"
  by (simp add: escape_char_def)

lemma escape_char_prefix_inj:
  assumes "escape_char c @ u = escape_char d @ v"
  shows "c = d \<and> u = v"
proof -
  have hd_eq: "hd (escape_char c) = hd (escape_char d)"
    using assms escape_char_not_Nil by (metis hd_append2)
  show ?thesis
  proof (cases "hd (escape_char c) = BSL")
    case True
    then have lc: "length (escape_char c) = 2" and ld: "length (escape_char d) = 2"
      using hd_eq by (auto simp: escape_char_def split: if_splits)
    then have eq: "escape_char c = escape_char d" and uv: "u = v"
      using assms by (auto simp: append_eq_append_conv)
    have "c = d"
      using eq True by (simp add: escape_char_def split: if_splits)
    with uv show ?thesis by simp
  next
    case False
    then have c: "escape_char c = [c]" and d: "escape_char d = [d]"
      using hd_eq by (auto simp: escape_char_def split: if_splits)
    with assms show ?thesis by simp
  qed
qed

lemma escapeCopyToData_inj: "escapeCopyToData s = escapeCopyToData t \<Longrightarrow> s = t"
proof (induction s arbitrary: t)
  case Nil
  then show ?case
    by (cases t) (simp_all add: escapeCopyToData_Nil escapeCopyToData_Cons escape_char_not_Nil)
next
  case (Cons c s)
  show ?case
  proof (cases t)
    case Nil
    with Cons.prems show ?thesis
      by (simp add: escapeCopyToData_Nil escapeCopyToData_Cons escape_char_not_Nil)
  next
    case (Cons d t')
    with Cons.prems
    have "escape_char c @ escapeCopyToData s = escape_char d @ escapeCopyToData t'"
      by (simp add: escapeCopyToData_Cons)
    then have "c = d" and "escapeCopyToData s = escapeCopyToData t'"
      using escape_char_prefix_inj by blast+
    with Cons.IH Cons show ?thesis by simp
  qed
qed

text \<open>
  Claim C7. For every string, the escape is the seven replacements applied one after the
  other: the backslash first, then the characters 8, 9, 10, 11, 12 and 13. Because the
  backslash goes first, the backslashes that the later passes put in are never doubled, and
  the result is the string with every character replaced on its own: a backslash by two
  backslashes, each of the six control characters by a backslash and its letter
  (\<open>b\<close>, \<open>t\<close>, \<open>n\<close>, \<open>v\<close>, \<open>f\<close>, \<open>r\<close>), and any other character by itself. Consequently the
  escape distributes over concatenation, and two different strings without a backslash
  have different escapes.
\<close>

theorem escape_passes_per_character_morphism_injective:
  "escapeCopyToData s =
     replace_char (CHR 0x0D) [BSL, CHR ''r'']
       (replace_char (CHR 0x0C) [BSL, CHR ''f'']
         (replace_char (CHR 0x0B) [BSL, CHR ''v'']
           (replace_char (CHR 0x0A) [BSL, CHR ''n'']
             (replace_char (CHR 0x09) [BSL, CHR ''t'']
               (replace_char (CHR 0x08) [BSL, CHR ''b'']
                 (replace_char BSL [BSL, BSL] s)))))) \<and>
   escapeCopyToData s =
     concat (map (\<lambda>c. if c = BSL then [BSL, BSL]
                      else if c = CHR 0x08 then [BSL, CHR ''b'']
                      else if c = CHR 0x09 then [BSL, CHR ''t'']
                      else if c = CHR 0x0A then [BSL, CHR ''n'']
                      else if c = CHR 0x0B then [BSL, CHR ''v'']
                      else if c = CHR 0x0C then [BSL, CHR ''f'']
                      else if c = CHR 0x0D then [BSL, CHR ''r'']
                      else [c]) s) \<and>
   escapeCopyToData (a @ b) = escapeCopyToData a @ escapeCopyToData b \<and>
   (BSL \<notin> set u \<and> BSL \<notin> set v \<and> u \<noteq> v \<longrightarrow> escapeCopyToData u \<noteq> escapeCopyToData v)"
proof -
  have passes: "escapeCopyToData s =
     replace_char (CHR 0x0D) [BSL, CHR ''r'']
       (replace_char (CHR 0x0C) [BSL, CHR ''f'']
         (replace_char (CHR 0x0B) [BSL, CHR ''v'']
           (replace_char (CHR 0x0A) [BSL, CHR ''n'']
             (replace_char (CHR 0x09) [BSL, CHR ''t'']
               (replace_char (CHR 0x08) [BSL, CHR ''b'']
                 (replace_char BSL [BSL, BSL] s))))))"
    by (simp only: escapeCopyToData_def)
  have "escape_char = (\<lambda>c. if c = BSL then [BSL, BSL]
                      else if c = CHR 0x08 then [BSL, CHR ''b'']
                      else if c = CHR 0x09 then [BSL, CHR ''t'']
                      else if c = CHR 0x0A then [BSL, CHR ''n'']
                      else if c = CHR 0x0B then [BSL, CHR ''v'']
                      else if c = CHR 0x0C then [BSL, CHR ''f'']
                      else if c = CHR 0x0D then [BSL, CHR ''r'']
                      else [c])"
    by (rule ext) (simp only: escape_char_def)
  then have chars: "escapeCopyToData s =
     concat (map (\<lambda>c. if c = BSL then [BSL, BSL]
                      else if c = CHR 0x08 then [BSL, CHR ''b'']
                      else if c = CHR 0x09 then [BSL, CHR ''t'']
                      else if c = CHR 0x0A then [BSL, CHR ''n'']
                      else if c = CHR 0x0B then [BSL, CHR ''v'']
                      else if c = CHR 0x0C then [BSL, CHR ''f'']
                      else if c = CHR 0x0D then [BSL, CHR ''r'']
                      else [c]) s)"
    using escapeCopyToData_chars [of s] by simp
  have inj: "u \<noteq> v \<longrightarrow> escapeCopyToData u \<noteq> escapeCopyToData v"
    using escapeCopyToData_inj [of u v] by blast
  from passes chars escapeCopyToData_append [of a b] inj show ?thesis
    by blast
qed

theorem escape_passes_per_character_morphism_injective_witness:
  "escapeCopyToData [CHR ''a'', BSL, CHR 0x08, TAB, CHR 0x0A, CHR 0x0B, CHR 0x0C, CHR 0x0D, CHR ''z'']
     = [CHR ''a'', BSL, BSL, BSL, CHR ''b'', BSL, CHR ''t'', BSL, CHR ''n'', BSL, CHR ''v'',
        BSL, CHR ''f'', BSL, CHR ''r'', CHR ''z''] \<and>
   escapeCopyToData (''a'' @ [TAB]) = escapeCopyToData ''a'' @ escapeCopyToData [TAB] \<and>
   BSL \<notin> set [CHR ''k'', TAB] \<and> BSL \<notin> set ''kt'' \<and> [CHR ''k'', TAB] \<noteq> ''kt'' \<and>
   escapeCopyToData [CHR ''k'', TAB] \<noteq> escapeCopyToData ''kt''"
  using escape_passes_per_character_morphism_injective
          [of "[CHR ''a'', BSL, CHR 0x08, TAB, CHR 0x0A, CHR 0x0B, CHR 0x0C, CHR 0x0D, CHR ''z'']"
              "''a''" "[TAB]" "[CHR ''k'', TAB]" "''kt''"]
  by (simp add: replace_char_def)

section \<open>Evaluating the writer on the sample sessions\<close>

lemmas text_eval = number_def digits.simps digit_char_def toLong_def trimmed_def isSpace_def
  is_digit_def digit_val_def splitTab_def splitSpace_def toLower_def lower_char_def
  copyHeader_def datestring_def pad_def escapeCopyToData_def replace_char_def setval_def
  joinTab.simps

lemmas writer_eval = bind_def Let_def createTable_def writeLines_def currentDateTime_def
  createNodeTables_def createWayTables_def createRelationTables_def establishNewIdMapping_def
  boundsColumns_def writeChangesetToTable_def incrementChangesInChangeset_def
  writeRelationMember_def writeRelationMembersToTables_def checkUnresolvedReferences_def
  convertDegreesToNanodegrees_def longToInt_def writeNodeToTables_def writePartialNode_def
  writeElementRows_def writeWayToTables_def writeWaynodesToTables_def writePartialWay_def
  writeRelationToTables_def writePartialRelation_def expandToInclude_def
  openWriter_def reset_def setConfiguration_def getLatestIdsFromDb_def

text \<open>The offline session that writes the sample node and nothing else.\<close>

lemma sample_offline_session:
  "\<exists>fw. session sampleOffline [NodeElement sampleNode] =
     Inr (Finished
       \<lparr>script =
          [''BEGIN TRANSACTION;'', [], [],
           setval getChangesetsSequenceName 0,
           setval getCurrentNodesSequenceName 1, [],
           copyHeader getChangesetsTableName
             ''id, user_id, created_at, min_lat, max_lat, min_lon, max_lon, closed_at, num_changes'',
           joinTab [''1'', ''17'', ''2017-03-09 01:02:03.045'', ''10000000'', ''10000000'',
                    ''20000000'', ''20000000'', ''2017-03-09 01:02:03.045'', ''1''],
           terminator, [], [], [],
           copyHeader getCurrentNodesTableName
             (''id, latitude, longitude, changeset_id, visible, '' @ quotedTimestamp @ '', tile, version''),
           joinTab [''1'', ''10000000'', ''20000000'', ''1'', ''t'', ''2017-03-09 01:02:03.045'',
                    ''77'', ''1''],
           terminator, [], [], [],
           copyHeader getCurrentNodeTagsTableName ''node_id, k, v'',
           terminator, [], [], [],
           copyHeader getNodesTableName
             (''node_id, latitude, longitude, changeset_id, visible, '' @ quotedTimestamp @ '', tile, version, redaction_id''),
           joinTab [''1'', ''10000000'', ''20000000'', ''1'', ''t'', ''2017-03-09 01:02:03.045'',
                    ''77'', ''1'', nullField],
           terminator, [], [], [],
           copyHeader getNodeTagsTableName ''node_id, version, k, v'',
           terminator, [], [], [],
           ''COMMIT;''],
        executedSql = [],
        finalWriter = fw\<rparr>)"
  by (simp add: session_def finalizePartial_def writeSequenceUpdates_def
      writeCombinedSqlFile_def sectionText_def createSectionNameList_def
      writer_eval text_eval sampleOffline_def sampleNode_def sampleTime_def)

lemma sample_offline_written:
  "\<exists>w. writeAll sampleOffline [NodeElement sampleNode] (openWriter sampleOffline) = Inr w"
  using sample_offline_session by (auto simp: session_def split: sum.splits)

lemma sample_online_way_written:
  "\<exists>w. writeAll sampleOnline [WayElement way50] (openWriter sampleOnline) = Inr w"
  by (simp add: writer_eval text_eval sampleOnline_def sampleOffline_def way50_def sampleTime_def)

text \<open>Two nodes, offline from node id 500 and online after node id 1000.\<close>

lemma offline_two_nodes_session:
  "\<exists>out. session offlineFrom500 [NodeElement sampleNode, NodeElement secondNode] =
     Inr (Finished out)"
  by (simp add: session_def finalizePartial_def writeSequenceUpdates_def
      writer_eval offlineFrom500_def sampleOffline_def sampleNode_def secondNode_def)

lemma online_two_nodes_session:
  "\<exists>out. session sampleOnline [NodeElement sampleNode, NodeElement secondNode] =
     Inr (Finished out)"
  by (simp add: session_def finalizePartial_def writeSequenceUpdates_def lockIds_def
      writeCombinedSqlFile_def sectionText_def createSectionNameList_def
      updateIdOffsetsInNewFile_def updateLine_def addOffset_def
      writer_eval text_eval sampleOnline_def sampleOffline_def sampleNode_def secondNode_def
      sampleTime_def)

section \<open>How each operation changes the writer\<close>

lemma bind_Inr: "bind m f = Inr y \<longleftrightarrow> (\<exists>x. m = Inr x \<and> f x = Inr y)"
  by (cases m) (simp_all add: bind_def)

lemma bind_Inl: "bind m f = Inl e \<longleftrightarrow> (m = Inl e \<or> (\<exists>x. m = Inr x \<and> f x = Inl e))"
  by (cases m) (simp_all add: bind_def)

lemma writeLines_Inr:
  "writeLines t ls w = Inr w' \<longleftrightarrow>
     (\<exists>c. outputSections w t = Some c \<and>
          w' = w\<lparr>outputSections := (outputSections w)(t \<mapsto> c @ ls)\<rparr>)"
  by (auto simp: writeLines_def split: option.splits)

lemma writeLines_Inl:
  "writeLines t ls w = Inl e \<longleftrightarrow> (outputSections w t = None \<and> e = NullPointer)"
  by (auto simp: writeLines_def split: option.splits)

lemma sameOutside_refl: "sameOutside T w w"
  by (simp add: sameOutside_def)

lemma sameOutside_trans:
  "sameOutside T w w1 \<Longrightarrow> sameOutside T w1 w2 \<Longrightarrow> sameOutside T w w2"
  by (simp add: sameOutside_def)

lemma sameOutside_mono: "sameOutside T w w' \<Longrightarrow> T \<subseteq> U \<Longrightarrow> sameOutside U w w'"
  by (auto simp: sameOutside_def)

lemma writeLines_frame:
  assumes "writeLines t ls w = Inr w'"
  shows "coreOf w' = coreOf w" "csOf w' = csOf w" "sameOutside {t} w w'"
    "relationMembersWritten w' = relationMembersWritten w"
    "unresolvedRelationRefs w' = unresolvedRelationRefs w"
    "clockReads w' = clockReads w"
  using assms by (auto simp: writeLines_Inr coreOf_def csOf_def sameOutside_def)

lemma writeTagsToTables_frame:
  assumes "writeTagsToTables tags dbId cur hist w = Inr w'"
  shows "coreOf w' = coreOf w \<and> csOf w' = csOf w \<and> sameOutside {cur, hist} w w' \<and>
    relationMembersWritten w' = relationMembersWritten w \<and>
    unresolvedRelationRefs w' = unresolvedRelationRefs w \<and> clockReads w' = clockReads w"
  using assms
proof (induction tags arbitrary: w)
  case Nil
  then show ?case by (simp add: sameOutside_def)
next
  case (Cons kv tags)
  obtain k v where kv: "kv = (k, v)" by (cases kv)
  from Cons.prems obtain w1 w2 where
    1: "writeLines cur [joinTab [number dbId, escapeCopyToData k, escapeCopyToData v]] w = Inr w1"
    and 2: "writeLines hist [joinTab [number dbId, ''1'', escapeCopyToData k, escapeCopyToData v]] w1 = Inr w2"
    and 3: "writeTagsToTables tags dbId cur hist w2 = Inr w'"
    by (auto simp: kv bind_Inr)
  from writeLines_frame [OF 1] writeLines_frame [OF 2] Cons.IH [OF 3]
  show ?case by (auto simp: sameOutside_def)
qed

lemma quiet_refl: "quiet T w w"
  by (simp add: quiet_def sameOutside_def)

lemma quiet_trans: "quiet T w w1 \<Longrightarrow> quiet U w1 w2 \<Longrightarrow> quiet (T \<union> U) w w2"
  by (auto simp: quiet_def sameOutside_def)

lemma quiet_trans2:
  "quiet T w w1 \<Longrightarrow> quiet U w1 w2 \<Longrightarrow> T \<subseteq> V \<Longrightarrow> U \<subseteq> V \<Longrightarrow> quiet V w w2"
  unfolding quiet_def sameOutside_def by (metis subsetD)

lemma quiet_trans3:
  "quiet T w w1 \<Longrightarrow> quiet U w1 w2 \<Longrightarrow> quiet X w2 w3 \<Longrightarrow>
   T \<subseteq> V \<Longrightarrow> U \<subseteq> V \<Longrightarrow> X \<subseteq> V \<Longrightarrow> quiet V w w3"
  by (blast intro: quiet_trans2 subset_refl)

lemma quiet_mono: "quiet T w w' \<Longrightarrow> T \<subseteq> U \<Longrightarrow> quiet U w w'"
  by (auto simp: quiet_def sameOutside_def)

lemma writeLines_quiet: "writeLines t ls w = Inr w' \<Longrightarrow> quiet {t} w w'"
  by (simp add: quiet_def writeLines_frame)

lemma writeTagsToTables_quiet:
  "writeTagsToTables tags dbId cur hist w = Inr w' \<Longrightarrow> quiet {cur, hist} w w'"
  by (simp add: quiet_def writeTagsToTables_frame)

lemma writeRelationMember_quiet:
  assumes "writeRelationMember r e m i w = Inr w'"
  shows "quiet {getCurrentRelationMembersTableName, getRelationMembersTableName} w w'"
proof -
  from assms obtain l1 l2 w1 w2 where
    1: "writeLines getCurrentRelationMembersTableName l1 w = Inr w1"
    and 2: "writeLines getRelationMembersTableName l2 w1 = Inr w2"
    and 3: "w' = w2\<lparr>relationMembersWritten := relationMembersWritten w2 + 1\<rparr>"
    by (auto simp: writeRelationMember_def bind_Inr split: ElementType.splits sum.splits)
  have "quiet {getRelationMembersTableName} w2 w'"
    by (simp add: 3 quiet_def coreOf_def csOf_def sameOutside_def)
  show ?thesis
    by (rule quiet_trans3 [OF writeLines_quiet [OF 1] writeLines_quiet [OF 2] \<open>quiet {getRelationMembersTableName} w2 w'\<close>]) auto
qed

lemma checkUnresolvedReferences_quiet:
  assumes "checkUnresolvedReferences eid dbId w = Inr w'"
  shows "quiet {getCurrentRelationMembersTableName, getRelationMembersTableName} w w'"
proof -
  from assms obtain w2 where
    1: "(case unresolvedRelationRefs w of
             None \<Rightarrow> Inr w
           | Some refs \<Rightarrow>
               (case refs eid of
                  None \<Rightarrow> Inr w
                | Some relationRef \<Rightarrow>
                    bind (writeRelationMember (sourceDbRelationId relationRef)
                            (relationMemberData relationRef) dbId
                            (relationMemberSequenceId relationRef) w)
                      (\<lambda>w1. Inr (w1\<lparr>unresolvedRelationRefs := Some (refs(eid := None))\<rparr>)))) = Inr w2"
    and 2: "w' = w2"
    by (auto simp: checkUnresolvedReferences_def bind_Inr split: if_splits)
  from 1 have "quiet {getCurrentRelationMembersTableName, getRelationMembersTableName} w w2"
  proof (cases "unresolvedRelationRefs w")
    case None
    with 1 show ?thesis by (simp add: quiet_refl)
  next
    case (Some refs)
    show ?thesis
    proof (cases "refs eid")
      case None
      with 1 Some show ?thesis by (simp add: quiet_refl)
    next
      case (Some ref)
      with 1 \<open>unresolvedRelationRefs w = Some refs\<close> obtain w1 where
        a: "writeRelationMember (sourceDbRelationId ref) (relationMemberData ref) dbId
              (relationMemberSequenceId ref) w = Inr w1"
        and b: "w2 = w1\<lparr>unresolvedRelationRefs := Some (refs(eid := None))\<rparr>"
        by (auto simp: bind_Inr)
      have "quiet {} w1 w2"
        by (simp add: b quiet_def coreOf_def csOf_def sameOutside_def)
      show ?thesis
        by (rule quiet_trans2 [OF writeRelationMember_quiet [OF a] \<open>quiet {} w1 w2\<close>]) auto
    qed
  qed
  with 2 show ?thesis by simp
qed

lemma writeRelationMembersLoop_quiet:
  assumes "writeRelationMembersLoop relId dbRel ms i w = Inr w'"
  shows "quiet {getCurrentRelationMembersTableName, getRelationMembersTableName} w w'"
  using assms
proof (induction ms arbitrary: i w)
  case Nil
  then show ?case by (simp add: quiet_refl)
next
  case (Cons it rest)
  from Cons.prems obtain km w1 where
    2: "(case (case km of None \<Rightarrow> None | Some m \<Rightarrow> m (entryId it)) of
                  Some memberDbId \<Rightarrow>
                    writeRelationMember dbRel it memberDbId i w
                | None \<Rightarrow>
                    (let refs = (case unresolvedRelationRefs w of
                                   None \<Rightarrow> Map.empty | Some m \<Rightarrow> m);
                         relationRef = \<lparr>sourceRelationId = relId,
                                        sourceDbRelationId = dbRel,
                                        relationMemberData = it,
                                        relationMemberSequenceId = i\<rparr>;
                         key = (entryType it, entryId it)
                     in Inr (w\<lparr>unresolvedRelationRefs :=
                                 Some (if refs key = None then refs(key \<mapsto> relationRef)
                                       else refs)\<rparr>))) = Inr w1"
    and 3: "writeRelationMembersLoop relId dbRel rest (Suc i) w1 = Inr w'"
    by (auto simp: bind_Inr split: sum.splits)
  have "quiet {getCurrentRelationMembersTableName, getRelationMembersTableName} w w1"
  proof (cases "case km of None \<Rightarrow> None | Some m \<Rightarrow> m (entryId it)")
    case None
    with 2 show ?thesis
      by (auto simp: Let_def quiet_def coreOf_def csOf_def sameOutside_def)
  next
    case (Some d)
    with 2 show ?thesis by (simp add: writeRelationMember_quiet)
  qed
  then show ?case
    by (rule quiet_trans2 [OF _ Cons.IH [OF 3]]) auto
qed

lemma writeWaynodesLoop_quiet:
  assumes "writeWaynodesLoop dbWayId ids i w = Inr w'"
  shows "quiet {getCurrentWayNodesTableName, getWayNodesTableName} w w'"
  using assms
proof (induction ids arbitrary: i w)
  case Nil
  then show ?case by (simp add: quiet_refl)
next
  case (Cons it rest)
  from Cons.prems obtain l1 l2 w1 w2 where
    1: "writeLines getCurrentWayNodesTableName l1 w = Inr w1"
    and 2: "writeLines getWayNodesTableName l2 w1 = Inr w2"
    and 3: "writeWaynodesLoop dbWayId rest (Suc i) w2 = Inr w'"
    by (auto simp: bind_Inr split: option.splits)
  show ?case
    by (rule quiet_trans3 [OF writeLines_quiet [OF 1] writeLines_quiet [OF 2] Cons.IH [OF 3]]) auto
qed

lemma currentDateTime_quiet:
  "currentDateTime cfg w = (d, w1) \<Longrightarrow> quiet {} w w1"
  by (auto simp: currentDateTime_def quiet_def coreOf_def csOf_def sameOutside_def)

lemma writeElementRows_quiet:
  assumes "writeElementRows cfg cur hist dbId w = Inr w'"
  shows "quiet {cur, hist} w w'"
proof -
  obtain d w1 where c: "currentDateTime cfg w = (d, w1)" by (cases "currentDateTime cfg w")
  with assms obtain l1 l2 w2 where
    1: "writeLines cur l1 w1 = Inr w2" and 2: "writeLines hist l2 w2 = Inr w'"
    by (auto simp: writeElementRows_def bind_Inr Let_def)
  show ?thesis
    by (rule quiet_trans3 [OF currentDateTime_quiet [OF c] writeLines_quiet [OF 1] writeLines_quiet [OF 2]]) auto
qed

lemma writeNodeToTables_quiet:
  assumes "writeNodeToTables cfg n dbId w = Inr w'"
  shows "quiet {getCurrentNodesTableName, getNodesTableName} w w'"
proof -
  obtain d w1 where c: "currentDateTime cfg w = (d, w1)" by (cases "currentDateTime cfg w")
  with assms obtain l1 l2 w2 where
    1: "writeLines getCurrentNodesTableName l1 w1 = Inr w2"
    and 2: "writeLines getNodesTableName l2 w2 = Inr w'"
    by (auto simp: writeNodeToTables_def bind_Inr Let_def split: if_splits)
  show ?thesis
    by (rule quiet_trans3 [OF currentDateTime_quiet [OF c] writeLines_quiet [OF 1] writeLines_quiet [OF 2]]) auto
qed

lemma writeChangesetToTable_frame:
  assumes "writeChangesetToTable cfg w = Inr w'"
  shows "coreOf w' = coreOf w" "sameOutside {getChangesetsTableName} w w'"
    "currentChangesetId w' = currentChangesetId w" "changesetsWritten w' = changesetsWritten w"
    "changesInChangeset w' = 0" "changesetUserId w \<noteq> - 1"
  using assms
  by (auto simp: writeChangesetToTable_def Let_def currentDateTime_def bind_Inr writeLines_Inr
      createTable_def coreOf_def sameOutside_def split: if_splits)

lemma incrementChangesInChangeset_frame:
  assumes "incrementChangesInChangeset cfg w = Inr w'"
  shows "coreOf w' = coreOf w" "sameOutside {getChangesetsTableName} w w'"
proof -
  let ?w1 = "w\<lparr>changesInChangeset := changesInChangeset w + 1\<rparr>"
  have c1: "coreOf ?w1 = coreOf w" "sameOutside {getChangesetsTableName} w ?w1"
    by (simp_all add: coreOf_def sameOutside_def)
  show "coreOf w' = coreOf w" "sameOutside {getChangesetsTableName} w w'"
  proof -
    show "coreOf w' = coreOf w"
    proof (cases "changesInChangeset w + 1 = maxChangesetSize cfg")
      case True
      with assms obtain w2 where a: "writeChangesetToTable cfg ?w1 = Inr w2"
        and b: "w' = w2\<lparr>currentChangesetId := currentChangesetId w2 + 1,
                           changesInChangeset := 0,
                           changesetBounds := None,
                           changesetsWritten := changesetsWritten w2 + 1\<rparr>"
        by (auto simp: incrementChangesInChangeset_def Let_def bind_Inr)
      from writeChangesetToTable_frame(1) [OF a] c1 b show ?thesis
        by (simp add: coreOf_def)
    next
      case False
      with assms have "w' = ?w1" by (auto simp: incrementChangesInChangeset_def Let_def)
      with c1 show ?thesis by simp
    qed
    show "sameOutside {getChangesetsTableName} w w'"
    proof (cases "changesInChangeset w + 1 = maxChangesetSize cfg")
      case True
      with assms obtain w2 where a: "writeChangesetToTable cfg ?w1 = Inr w2"
        and b: "w' = w2\<lparr>currentChangesetId := currentChangesetId w2 + 1,
                           changesInChangeset := 0,
                           changesetBounds := None,
                           changesetsWritten := changesetsWritten w2 + 1\<rparr>"
        by (auto simp: incrementChangesInChangeset_def Let_def bind_Inr)
      from writeChangesetToTable_frame(2) [OF a] c1 b show ?thesis
        by (simp add: sameOutside_def)
    next
      case False
      with assms have "w' = ?w1" by (auto simp: incrementChangesInChangeset_def Let_def)
      with c1 show ?thesis by simp
    qed
  qed
qed

lemma createNodeTables_frame:
  "coreOf (createNodeTables w) = coreOf w" "csOf (createNodeTables w) = csOf w"
  "sameOutside {getCurrentNodesTableName, getCurrentNodeTagsTableName, getNodesTableName,
     getNodeTagsTableName} w (createNodeTables w)"
  by (simp_all add: createNodeTables_def createTable_def coreOf_def csOf_def sameOutside_def)

lemma createWayTables_frame:
  "coreOf (createWayTables w) = coreOf w" "csOf (createWayTables w) = csOf w"
  "sameOutside {getCurrentWaysTableName, getCurrentWayTagsTableName, getCurrentWayNodesTableName,
     getWaysTableName, getWayTagsTableName, getWayNodesTableName} w (createWayTables w)"
  by (simp_all add: createWayTables_def createTable_def coreOf_def csOf_def sameOutside_def)

lemma createRelationTables_frame:
  "coreOf (createRelationTables w) = coreOf w" "csOf (createRelationTables w) = csOf w"
  "sameOutside {getCurrentRelationsTableName, getCurrentRelationTagsTableName,
     getCurrentRelationMembersTableName, getRelationsTableName, getRelationTagsTableName,
     getRelationMembersTableName} w (createRelationTables w)"
  by (simp_all add: createRelationTables_def createTable_def coreOf_def csOf_def sameOutside_def)

lemma writePartialNode_unfold:
  "writePartialNode cfg n w =
      (case nodeIdMap (nodePrelude n w) of
           None \<Rightarrow> Inl NullPointer
         | Some m \<Rightarrow>
             if m (nodeId n) \<noteq> None then Inl UpdateNotSupported
             else
               bind (establishNewIdMapping (Node, nodeId n) (nodePrelude n w)) (\<lambda>(nodeDbId, w3).
               bind (writeNodeToTables cfg n nodeDbId w3) (\<lambda>w4.
               bind (writeTagsToTables (nodeTags n) nodeDbId
                       getCurrentNodeTagsTableName getNodeTagsTableName w4) (\<lambda>w5.
               bind (incrementChangesInChangeset cfg
                       (w5\<lparr>nodesWritten := nodesWritten w5 + 1,
                           nodeTagsWritten := nodeTagsWritten w5 + int (length (nodeTags n))\<rparr>))
                 (\<lambda>w6. checkUnresolvedReferences (Node, nodeId n) nodeDbId w6)))))"
  unfolding writePartialNode_def nodePrelude_def Let_def by (rule refl)

lemma writePartialWay_unfold:
  "writePartialWay cfg way w =
      (case wayIdMap (wayPrelude w) of
           None \<Rightarrow> Inl NullPointer
         | Some m \<Rightarrow>
             if m (wayId way) \<noteq> None then Inl UpdateNotSupported
             else
               bind (establishNewIdMapping (Way, wayId way) (wayPrelude w)) (\<lambda>(wayDbId, w3).
               bind (writeWayToTables cfg wayDbId w3) (\<lambda>w4.
               bind (case (case wayIdMap w4 of None \<Rightarrow> None | Some m4 \<Rightarrow> m4 (wayId way)) of
                       None \<Rightarrow> Inl NullPointer
                     | Some dbWayId \<Rightarrow> writeWaynodesToTables dbWayId (wayNodeIds way) w4) (\<lambda>w5.
               bind (writeTagsToTables (wayTags way) wayDbId
                       getCurrentWayTagsTableName getWayTagsTableName w5) (\<lambda>w6.
               bind (incrementChangesInChangeset cfg
                       (w6\<lparr>waysWritten := waysWritten w6 + 1,
                           wayTagsWritten := wayTagsWritten w6 + int (length (wayTags way)),
                           wayNodesWritten := wayNodesWritten w6 + int (length (wayNodeIds way))\<rparr>))
                 (\<lambda>w7. checkUnresolvedReferences (Way, wayId way) wayDbId w7))))))"
  unfolding writePartialWay_def wayPrelude_def Let_def by (rule refl)

lemma writePartialRelation_unfold:
  "writePartialRelation cfg r w =
      (case relationIdMap (relationPrelude w) of
           None \<Rightarrow> Inl NullPointer
         | Some m \<Rightarrow>
             if m (relationId r) \<noteq> None then Inl UpdateNotSupported
             else
               bind (establishNewIdMapping (Relation, relationId r) (relationPrelude w)) (\<lambda>(relationDbId, w3).
               bind (writeRelationToTables cfg relationDbId w3) (\<lambda>w4.
               bind (writeRelationMembersToTables r w4) (\<lambda>w5.
               bind (writeTagsToTables (relationTags r) relationDbId
                       getCurrentRelationTagsTableName getRelationTagsTableName w5) (\<lambda>w6.
               bind (incrementChangesInChangeset cfg
                       (w6\<lparr>relationsWritten := relationsWritten w6 + 1,
                           relationTagsWritten :=
                             relationTagsWritten w6 + int (length (relationTags r)),
                           relationMembersWritten :=
                             relationMembersWritten w6 + int (length (relationMembers r))\<rparr>))
                 (\<lambda>w7. checkUnresolvedReferences (Relation, relationId r) relationDbId w7))))))"
  unfolding writePartialRelation_def relationPrelude_def Let_def by (rule refl)

text \<open>The steps of a successful write, one fact per call of the source.\<close>

lemma writePartialNode_steps:
  assumes "writePartialNode cfg n w = Inr w'"
  obtains m w4 w5 w6 where
    "nodeIdMap (nodePrelude n w) = Some m" "m (nodeId n) = None"
    "writeNodeToTables cfg n (currentNodeId (nodePrelude n w))
       ((nodePrelude n w)\<lparr>nodeIdMap := Some (m(nodeId n \<mapsto> currentNodeId (nodePrelude n w))),
                           currentNodeId := currentNodeId (nodePrelude n w) + 1\<rparr>) = Inr w4"
    "writeTagsToTables (nodeTags n) (currentNodeId (nodePrelude n w))
       getCurrentNodeTagsTableName getNodeTagsTableName w4 = Inr w5"
    "incrementChangesInChangeset cfg
       (w5\<lparr>nodesWritten := nodesWritten w5 + 1,
           nodeTagsWritten := nodeTagsWritten w5 + int (length (nodeTags n))\<rparr>) = Inr w6"
    "checkUnresolvedReferences (Node, nodeId n) (currentNodeId (nodePrelude n w)) w6 = Inr w'"
proof -
  from assms obtain m where m: "nodeIdMap (nodePrelude n w) = Some m" "m (nodeId n) = None"
    unfolding writePartialNode_unfold by (auto split: option.splits if_splits)
  from assms m obtain dbId w3 w4 w5 w6 where
    e: "establishNewIdMapping (Node, nodeId n) (nodePrelude n w) = Inr (dbId, w3)"
    and r: "writeNodeToTables cfg n dbId w3 = Inr w4"
    "writeTagsToTables (nodeTags n) dbId getCurrentNodeTagsTableName getNodeTagsTableName w4 = Inr w5"
    "incrementChangesInChangeset cfg
               (w5\<lparr>nodesWritten := nodesWritten w5 + 1,
                   nodeTagsWritten := nodeTagsWritten w5 + int (length (nodeTags n))\<rparr>) = Inr w6"
    "checkUnresolvedReferences (Node, nodeId n) dbId w6 = Inr w'"
    unfolding writePartialNode_unfold by (auto simp: bind_Inr)
  from e m have "dbId = currentNodeId (nodePrelude n w)"
    "w3 = (nodePrelude n w)\<lparr>nodeIdMap := Some (m(nodeId n \<mapsto> currentNodeId (nodePrelude n w))),
                           currentNodeId := currentNodeId (nodePrelude n w) + 1\<rparr>"
    by (auto simp: establishNewIdMapping_def)
  with m r that show thesis by blast
qed

lemma writePartialWay_steps:
  assumes "writePartialWay cfg way w = Inr w'"
  obtains m w4 w5 w6 w7 where
    "wayIdMap (wayPrelude w) = Some m" "m (wayId way) = None"
    "writeWayToTables cfg (currentWayId (wayPrelude w))
       ((wayPrelude w)\<lparr>wayIdMap := Some (m(wayId way \<mapsto> currentWayId (wayPrelude w))),
                        currentWayId := currentWayId (wayPrelude w) + 1\<rparr>) = Inr w4"
    "writeWaynodesToTables (currentWayId (wayPrelude w)) (wayNodeIds way) w4 = Inr w5"
    "writeTagsToTables (wayTags way) (currentWayId (wayPrelude w))
       getCurrentWayTagsTableName getWayTagsTableName w5 = Inr w6"
    "incrementChangesInChangeset cfg
       (w6\<lparr>waysWritten := waysWritten w6 + 1,
           wayTagsWritten := wayTagsWritten w6 + int (length (wayTags way)),
           wayNodesWritten := wayNodesWritten w6 + int (length (wayNodeIds way))\<rparr>) = Inr w7"
    "checkUnresolvedReferences (Way, wayId way) (currentWayId (wayPrelude w)) w7 = Inr w'"
proof -
  from assms obtain m where m: "wayIdMap (wayPrelude w) = Some m" "m (wayId way) = None"
    unfolding writePartialWay_unfold by (auto split: option.splits if_splits)
  from assms m obtain dbId w3 w4 w5 w6 w7 where
    e: "establishNewIdMapping (Way, wayId way) (wayPrelude w) = Inr (dbId, w3)"
    and r4: "writeWayToTables cfg dbId w3 = Inr w4"
    and r5: "(case (case wayIdMap w4 of None \<Rightarrow> None | Some m4 \<Rightarrow> m4 (wayId way)) of
                       None \<Rightarrow> Inl NullPointer
                     | Some dbWayId \<Rightarrow> writeWaynodesToTables dbWayId (wayNodeIds way) w4) = Inr w5"
    and r: "writeTagsToTables (wayTags way) dbId getCurrentWayTagsTableName getWayTagsTableName w5 = Inr w6"
    "incrementChangesInChangeset cfg
       (w6\<lparr>waysWritten := waysWritten w6 + 1,
           wayTagsWritten := wayTagsWritten w6 + int (length (wayTags way)),
           wayNodesWritten := wayNodesWritten w6 + int (length (wayNodeIds way))\<rparr>) = Inr w7"
    "checkUnresolvedReferences (Way, wayId way) dbId w7 = Inr w'"
    unfolding writePartialWay_unfold by (auto simp: bind_Inr)
  from e m have d: "dbId = currentWayId (wayPrelude w)"
    "w3 = (wayPrelude w)\<lparr>wayIdMap := Some (m(wayId way \<mapsto> currentWayId (wayPrelude w))),
                        currentWayId := currentWayId (wayPrelude w) + 1\<rparr>"
    by (auto simp: establishNewIdMapping_def)
  have "coreOf w4 = coreOf w3"
    using writeElementRows_quiet [OF r4 [unfolded writeWayToTables_def]] by (simp add: quiet_def)
  with d have "wayIdMap w4 = Some (m(wayId way \<mapsto> dbId))" by (simp add: coreOf_def)
  with r5 have "writeWaynodesToTables dbId (wayNodeIds way) w4 = Inr w5" by simp
  with d m r r4 that show thesis by blast
qed

lemma writePartialRelation_steps:
  assumes "writePartialRelation cfg r w = Inr w'"
  obtains m w4 w5 w6 w7 where
    "relationIdMap (relationPrelude w) = Some m" "m (relationId r) = None"
    "writeRelationToTables cfg (currentRelationId (relationPrelude w))
       ((relationPrelude w)\<lparr>relationIdMap :=
                               Some (m(relationId r \<mapsto> currentRelationId (relationPrelude w))),
                             currentRelationId := currentRelationId (relationPrelude w) + 1\<rparr>) = Inr w4"
    "writeRelationMembersLoop (relationId r) (currentRelationId (relationPrelude w))
       (relationMembers r) 1 w4 = Inr w5"
    "writeTagsToTables (relationTags r) (currentRelationId (relationPrelude w))
       getCurrentRelationTagsTableName getRelationTagsTableName w5 = Inr w6"
    "incrementChangesInChangeset cfg
       (w6\<lparr>relationsWritten := relationsWritten w6 + 1,
           relationTagsWritten := relationTagsWritten w6 + int (length (relationTags r)),
           relationMembersWritten :=
             relationMembersWritten w6 + int (length (relationMembers r))\<rparr>) = Inr w7"
    "checkUnresolvedReferences (Relation, relationId r) (currentRelationId (relationPrelude w)) w7 = Inr w'"
proof -
  from assms obtain m where m: "relationIdMap (relationPrelude w) = Some m" "m (relationId r) = None"
    unfolding writePartialRelation_unfold by (auto split: option.splits if_splits)
  from assms m obtain dbId w3 w4 w5 w6 w7 where
    e: "establishNewIdMapping (Relation, relationId r) (relationPrelude w) = Inr (dbId, w3)"
    and r4: "writeRelationToTables cfg dbId w3 = Inr w4"
    and r5: "writeRelationMembersToTables r w4 = Inr w5"
    and rr: "writeTagsToTables (relationTags r) dbId getCurrentRelationTagsTableName getRelationTagsTableName w5 = Inr w6"
    "incrementChangesInChangeset cfg
       (w6\<lparr>relationsWritten := relationsWritten w6 + 1,
           relationTagsWritten := relationTagsWritten w6 + int (length (relationTags r)),
           relationMembersWritten :=
             relationMembersWritten w6 + int (length (relationMembers r))\<rparr>) = Inr w7"
    "checkUnresolvedReferences (Relation, relationId r) dbId w7 = Inr w'"
    unfolding writePartialRelation_unfold by (auto simp: bind_Inr)
  from e m have d: "dbId = currentRelationId (relationPrelude w)"
    "w3 = (relationPrelude w)\<lparr>relationIdMap :=
                               Some (m(relationId r \<mapsto> currentRelationId (relationPrelude w))),
                             currentRelationId := currentRelationId (relationPrelude w) + 1\<rparr>"
    by (auto simp: establishNewIdMapping_def)
  have "coreOf w4 = coreOf w3"
    using writeElementRows_quiet [OF r4 [unfolded writeRelationToTables_def]] by (simp add: quiet_def)
  with d have "relationIdMap w4 = Some (m(relationId r \<mapsto> dbId))" by (simp add: coreOf_def)
  with r5 have "writeRelationMembersLoop (relationId r) dbId (relationMembers r) 1 w4 = Inr w5"
    by (simp add: writeRelationMembersToTables_def)
  with d m rr r4 that show thesis by blast
qed

lemma nodePrelude_fields:
  "nodesWritten (nodePrelude n w) = nodesWritten w"
  "waysWritten (nodePrelude n w) = waysWritten w"
  "relationsWritten (nodePrelude n w) = relationsWritten w"
  "nodeIdMap (nodePrelude n w) = (if nodesWritten w = 0 then Some Map.empty else nodeIdMap w)"
  "wayIdMap (nodePrelude n w) = wayIdMap w"
  "relationIdMap (nodePrelude n w) = relationIdMap w"
  "currentNodeId (nodePrelude n w) = currentNodeId w"
  "currentWayId (nodePrelude n w) = currentWayId w"
  "currentRelationId (nodePrelude n w) = currentRelationId w"
  "changesetUserId (nodePrelude n w) = changesetUserId w"
  "unresolvedWaynodeRefs (nodePrelude n w) = unresolvedWaynodeRefs w"
  "currentChangesetId (nodePrelude n w) = currentChangesetId w"
  "changesInChangeset (nodePrelude n w) = changesInChangeset w"
  "changesetsWritten (nodePrelude n w) = changesetsWritten w"
  "clockReads (nodePrelude n w) = clockReads w"
  by (simp_all add: nodePrelude_def Let_def createNodeTables_def createTable_def)

lemma wayPrelude_fields:
  "nodesWritten (wayPrelude w) = nodesWritten w"
  "waysWritten (wayPrelude w) = waysWritten w"
  "relationsWritten (wayPrelude w) = relationsWritten w"
  "nodeIdMap (wayPrelude w) = nodeIdMap w"
  "wayIdMap (wayPrelude w) = (if waysWritten w = 0 then Some Map.empty else wayIdMap w)"
  "relationIdMap (wayPrelude w) = relationIdMap w"
  "currentNodeId (wayPrelude w) = currentNodeId w"
  "currentWayId (wayPrelude w) = currentWayId w"
  "currentRelationId (wayPrelude w) = currentRelationId w"
  "changesetUserId (wayPrelude w) = changesetUserId w"
  "unresolvedWaynodeRefs (wayPrelude w) = unresolvedWaynodeRefs w"
  "csOf (wayPrelude w) = csOf w"
  "clockReads (wayPrelude w) = clockReads w"
  by (simp_all add: wayPrelude_def createWayTables_def createTable_def csOf_def)

lemma relationPrelude_fields:
  "nodesWritten (relationPrelude w) = nodesWritten w"
  "waysWritten (relationPrelude w) = waysWritten w"
  "relationsWritten (relationPrelude w) = relationsWritten w"
  "nodeIdMap (relationPrelude w) = nodeIdMap w"
  "wayIdMap (relationPrelude w) = wayIdMap w"
  "relationIdMap (relationPrelude w) = (if relationsWritten w = 0 then Some Map.empty else relationIdMap w)"
  "currentNodeId (relationPrelude w) = currentNodeId w"
  "currentWayId (relationPrelude w) = currentWayId w"
  "currentRelationId (relationPrelude w) = currentRelationId w"
  "changesetUserId (relationPrelude w) = changesetUserId w"
  "unresolvedWaynodeRefs (relationPrelude w) = unresolvedWaynodeRefs w"
  "csOf (relationPrelude w) = csOf w"
  "clockReads (relationPrelude w) = clockReads w"
  by (simp_all add: relationPrelude_def createRelationTables_def createTable_def csOf_def)

text \<open>What a successful write does to the counters, the id maps and the next local ids.\<close>

lemma writePartialNode_core:
  assumes "writePartialNode cfg n w = Inr w'"
  obtains m where
    "nodeIdMap (nodePrelude n w) = Some m" "m (nodeId n) = None"
    "coreOf w' = (nodesWritten w + 1, waysWritten w, relationsWritten w,
       Some (m(nodeId n \<mapsto> currentNodeId w)), wayIdMap w, relationIdMap w,
       currentNodeId w + 1, currentWayId w, currentRelationId w, changesetUserId w,
       unresolvedWaynodeRefs w)"
proof -
  from assms obtain m w4 w5 w6 where
    m: "nodeIdMap (nodePrelude n w) = Some m" "m (nodeId n) = None"
    and 4: "writeNodeToTables cfg n (currentNodeId (nodePrelude n w))
       ((nodePrelude n w)\<lparr>nodeIdMap := Some (m(nodeId n \<mapsto> currentNodeId (nodePrelude n w))),
                           currentNodeId := currentNodeId (nodePrelude n w) + 1\<rparr>) = Inr w4"
    and 5: "writeTagsToTables (nodeTags n) (currentNodeId (nodePrelude n w))
       getCurrentNodeTagsTableName getNodeTagsTableName w4 = Inr w5"
    and 6: "incrementChangesInChangeset cfg
       (w5\<lparr>nodesWritten := nodesWritten w5 + 1,
           nodeTagsWritten := nodeTagsWritten w5 + int (length (nodeTags n))\<rparr>) = Inr w6"
    and 7: "checkUnresolvedReferences (Node, nodeId n) (currentNodeId (nodePrelude n w)) w6 = Inr w'"
    by (rule writePartialNode_steps)
  have "coreOf w' = coreOf w6"
    using checkUnresolvedReferences_quiet [OF 7] by (simp add: quiet_def)
  also have "\<dots> = coreOf (w5\<lparr>nodesWritten := nodesWritten w5 + 1,
           nodeTagsWritten := nodeTagsWritten w5 + int (length (nodeTags n))\<rparr>)"
    using incrementChangesInChangeset_frame(1) [OF 6] .
  finally have a: "coreOf w' = coreOf (w5\<lparr>nodesWritten := nodesWritten w5 + 1\<rparr>)"
    by (simp add: coreOf_def)
  have b: "coreOf w5 = coreOf ((nodePrelude n w)\<lparr>nodeIdMap := Some (m(nodeId n \<mapsto> currentNodeId (nodePrelude n w))),
                           currentNodeId := currentNodeId (nodePrelude n w) + 1\<rparr>)"
    using writeTagsToTables_quiet [OF 5] writeNodeToTables_quiet [OF 4] by (simp add: quiet_def)
  have "coreOf w' = (nodesWritten w + 1, waysWritten w, relationsWritten w,
       Some (m(nodeId n \<mapsto> currentNodeId w)), wayIdMap w, relationIdMap w,
       currentNodeId w + 1, currentWayId w, currentRelationId w, changesetUserId w,
       unresolvedWaynodeRefs w)"
    using a b by (simp add: coreOf_def nodePrelude_fields)
  with m that show thesis by blast
qed

lemma writePartialWay_core:
  assumes "writePartialWay cfg way w = Inr w'"
  obtains m where
    "wayIdMap (wayPrelude w) = Some m" "m (wayId way) = None"
    "coreOf w' = (nodesWritten w, waysWritten w + 1, relationsWritten w,
       nodeIdMap w, Some (m(wayId way \<mapsto> currentWayId w)), relationIdMap w,
       currentNodeId w, currentWayId w + 1, currentRelationId w, changesetUserId w,
       unresolvedWaynodeRefs w)"
proof -
  from assms obtain m w4 w5 w6 w7 where
    m: "wayIdMap (wayPrelude w) = Some m" "m (wayId way) = None"
    and 4: "writeWayToTables cfg (currentWayId (wayPrelude w))
       ((wayPrelude w)\<lparr>wayIdMap := Some (m(wayId way \<mapsto> currentWayId (wayPrelude w))),
                        currentWayId := currentWayId (wayPrelude w) + 1\<rparr>) = Inr w4"
    and 5: "writeWaynodesToTables (currentWayId (wayPrelude w)) (wayNodeIds way) w4 = Inr w5"
    and 6: "writeTagsToTables (wayTags way) (currentWayId (wayPrelude w))
       getCurrentWayTagsTableName getWayTagsTableName w5 = Inr w6"
    and 7: "incrementChangesInChangeset cfg
       (w6\<lparr>waysWritten := waysWritten w6 + 1,
           wayTagsWritten := wayTagsWritten w6 + int (length (wayTags way)),
           wayNodesWritten := wayNodesWritten w6 + int (length (wayNodeIds way))\<rparr>) = Inr w7"
    and 8: "checkUnresolvedReferences (Way, wayId way) (currentWayId (wayPrelude w)) w7 = Inr w'"
    by (rule writePartialWay_steps)
  have "coreOf w' = coreOf w7"
    using checkUnresolvedReferences_quiet [OF 8] by (simp add: quiet_def)
  also have "\<dots> = coreOf (w6\<lparr>waysWritten := waysWritten w6 + 1,
           wayTagsWritten := wayTagsWritten w6 + int (length (wayTags way)),
           wayNodesWritten := wayNodesWritten w6 + int (length (wayNodeIds way))\<rparr>)"
    using incrementChangesInChangeset_frame(1) [OF 7] .
  finally have a: "coreOf w' = coreOf (w6\<lparr>waysWritten := waysWritten w6 + 1\<rparr>)"
    by (simp add: coreOf_def)
  have b: "coreOf w6 = coreOf ((wayPrelude w)\<lparr>wayIdMap := Some (m(wayId way \<mapsto> currentWayId (wayPrelude w))),
                        currentWayId := currentWayId (wayPrelude w) + 1\<rparr>)"
    using writeTagsToTables_quiet [OF 6] writeWaynodesLoop_quiet [OF 5 [unfolded writeWaynodesToTables_def]]
      writeElementRows_quiet [OF 4 [unfolded writeWayToTables_def]]
    by (simp add: quiet_def)
  have "coreOf w' = (nodesWritten w, waysWritten w + 1, relationsWritten w,
       nodeIdMap w, Some (m(wayId way \<mapsto> currentWayId w)), relationIdMap w,
       currentNodeId w, currentWayId w + 1, currentRelationId w, changesetUserId w,
       unresolvedWaynodeRefs w)"
    using a b by (simp add: coreOf_def wayPrelude_fields)
  with m that show thesis by blast
qed

lemma writePartialRelation_core:
  assumes "writePartialRelation cfg r w = Inr w'"
  obtains m where
    "relationIdMap (relationPrelude w) = Some m" "m (relationId r) = None"
    "coreOf w' = (nodesWritten w, waysWritten w, relationsWritten w + 1,
       nodeIdMap w, wayIdMap w, Some (m(relationId r \<mapsto> currentRelationId w)),
       currentNodeId w, currentWayId w, currentRelationId w + 1, changesetUserId w,
       unresolvedWaynodeRefs w)"
proof -
  from assms obtain m w4 w5 w6 w7 where
    m: "relationIdMap (relationPrelude w) = Some m" "m (relationId r) = None"
    and 4: "writeRelationToTables cfg (currentRelationId (relationPrelude w))
       ((relationPrelude w)\<lparr>relationIdMap :=
                               Some (m(relationId r \<mapsto> currentRelationId (relationPrelude w))),
                             currentRelationId := currentRelationId (relationPrelude w) + 1\<rparr>) = Inr w4"
    and 5: "writeRelationMembersLoop (relationId r) (currentRelationId (relationPrelude w))
       (relationMembers r) 1 w4 = Inr w5"
    and 6: "writeTagsToTables (relationTags r) (currentRelationId (relationPrelude w))
       getCurrentRelationTagsTableName getRelationTagsTableName w5 = Inr w6"
    and 7: "incrementChangesInChangeset cfg
       (w6\<lparr>relationsWritten := relationsWritten w6 + 1,
           relationTagsWritten := relationTagsWritten w6 + int (length (relationTags r)),
           relationMembersWritten :=
             relationMembersWritten w6 + int (length (relationMembers r))\<rparr>) = Inr w7"
    and 8: "checkUnresolvedReferences (Relation, relationId r) (currentRelationId (relationPrelude w)) w7 = Inr w'"
    by (rule writePartialRelation_steps)
  have "coreOf w' = coreOf w7"
    using checkUnresolvedReferences_quiet [OF 8] by (simp add: quiet_def)
  also have "\<dots> = coreOf (w6\<lparr>relationsWritten := relationsWritten w6 + 1,
           relationTagsWritten := relationTagsWritten w6 + int (length (relationTags r)),
           relationMembersWritten :=
             relationMembersWritten w6 + int (length (relationMembers r))\<rparr>)"
    using incrementChangesInChangeset_frame(1) [OF 7] .
  finally have a: "coreOf w' = coreOf (w6\<lparr>relationsWritten := relationsWritten w6 + 1\<rparr>)"
    by (simp add: coreOf_def)
  have b: "coreOf w6 = coreOf ((relationPrelude w)\<lparr>relationIdMap :=
                               Some (m(relationId r \<mapsto> currentRelationId (relationPrelude w))),
                             currentRelationId := currentRelationId (relationPrelude w) + 1\<rparr>)"
    using writeTagsToTables_quiet [OF 6] writeRelationMembersLoop_quiet [OF 5]
      writeElementRows_quiet [OF 4 [unfolded writeRelationToTables_def]]
    by (simp add: quiet_def)
  have "coreOf w' = (nodesWritten w, waysWritten w, relationsWritten w + 1,
       nodeIdMap w, wayIdMap w, Some (m(relationId r \<mapsto> currentRelationId w)),
       currentNodeId w, currentWayId w, currentRelationId w + 1, changesetUserId w,
       unresolvedWaynodeRefs w)"
    using a b by (simp add: coreOf_def relationPrelude_fields)
  with m that show thesis by blast
qed

lemma idsOfKind_simps [simp]:
  "idsOfKind k [] = []"
  "idsOfKind k (es @ es') = idsOfKind k es @ idsOfKind k es'"
  "idsOfKind k [NodeElement n] = (if k = Node then [nodeId n] else [])"
  "idsOfKind k [WayElement way] = (if k = Way then [wayId way] else [])"
  "idsOfKind k [RelationElement r] = (if k = Relation then [relationId r] else [])"
  by (auto simp: idsOfKind_def elementIdOf_def)

lemma kindInv_same: "kindInv k es c m \<Longrightarrow> idsOfKind k [e] = [] \<Longrightarrow> kindInv k (es @ [e]) c m"
  by (simp add: kindInv_def)

lemma kindInv_step:
  assumes "kindInv k es c mp" and "idsOfKind k [e] = [i]"
    and "(if c = 0 then Some Map.empty else mp) = Some m"
  shows "kindInv k (es @ [e]) (c + 1) (Some (m(i \<mapsto> v)))"
proof (cases "idsOfKind k es = []")
  case True
  with assms show ?thesis by (auto simp: kindInv_def)
next
  case False
  with assms have "c \<noteq> 0" by (auto simp: kindInv_def)
  with assms False show ?thesis by (auto simp: kindInv_def)
qed

lemma idInv_writePartial:
  assumes "idInv es w" and "writePartial cfg e w = Inr w'"
  shows "idInv (es @ [e]) w'"
proof (cases e)
  case (NodeElement n)
  with assms(2) have "writePartialNode cfg n w = Inr w'" by simp
  then obtain m where m: "nodeIdMap (nodePrelude n w) = Some m"
    and c: "coreOf w' = (nodesWritten w + 1, waysWritten w, relationsWritten w,
       Some (m(nodeId n \<mapsto> currentNodeId w)), wayIdMap w, relationIdMap w,
       currentNodeId w + 1, currentWayId w, currentRelationId w, changesetUserId w,
       unresolvedWaynodeRefs w)"
    by (rule writePartialNode_core)
  from c have f: "nodesWritten w' = nodesWritten w + 1" "nodeIdMap w' = Some (m(nodeId n \<mapsto> currentNodeId w))"
    "waysWritten w' = waysWritten w" "wayIdMap w' = wayIdMap w" "relationsWritten w' = relationsWritten w" "relationIdMap w' = relationIdMap w"
    by (simp_all add: coreOf_def)
  from assms(1) have i: "kindInv Node es (nodesWritten w) (nodeIdMap w)"
    "kindInv Way es (waysWritten w) (wayIdMap w)"
    "kindInv Relation es (relationsWritten w) (relationIdMap w)"
    by (simp_all add: idInv_def)
  have "kindInv Node (es @ [e]) (nodesWritten w + 1) (Some (m(nodeId n \<mapsto> currentNodeId w)))"
    using m by (intro kindInv_step [OF i(1)]) (simp_all add: NodeElement nodePrelude_fields)
  moreover have "kindInv Way (es @ [e]) (waysWritten w) (wayIdMap w)"
    by (intro kindInv_same [OF i(2)]) (simp add: NodeElement)
  moreover have "kindInv Relation (es @ [e]) (relationsWritten w) (relationIdMap w)"
    by (intro kindInv_same [OF i(3)]) (simp add: NodeElement)
  ultimately show ?thesis
    by (simp add: idInv_def f)
next
  case (WayElement way)
  with assms(2) have "writePartialWay cfg way w = Inr w'" by simp
  then obtain m where m: "wayIdMap (wayPrelude w) = Some m"
    and c: "coreOf w' = (nodesWritten w, waysWritten w + 1, relationsWritten w,
       nodeIdMap w, Some (m(wayId way \<mapsto> currentWayId w)), relationIdMap w,
       currentNodeId w, currentWayId w + 1, currentRelationId w, changesetUserId w,
       unresolvedWaynodeRefs w)"
    by (rule writePartialWay_core)
  from c have f: "waysWritten w' = waysWritten w + 1" "wayIdMap w' = Some (m(wayId way \<mapsto> currentWayId w))"
    "nodesWritten w' = nodesWritten w" "nodeIdMap w' = nodeIdMap w" "relationsWritten w' = relationsWritten w" "relationIdMap w' = relationIdMap w"
    by (simp_all add: coreOf_def)
  from assms(1) have i: "kindInv Node es (nodesWritten w) (nodeIdMap w)"
    "kindInv Way es (waysWritten w) (wayIdMap w)"
    "kindInv Relation es (relationsWritten w) (relationIdMap w)"
    by (simp_all add: idInv_def)
  have "kindInv Way (es @ [e]) (waysWritten w + 1) (Some (m(wayId way \<mapsto> currentWayId w)))"
    using m by (intro kindInv_step [OF i(2)]) (simp_all add: WayElement wayPrelude_fields)
  moreover have "kindInv Node (es @ [e]) (nodesWritten w) (nodeIdMap w)"
    by (intro kindInv_same [OF i(1)]) (simp add: WayElement)
  moreover have "kindInv Relation (es @ [e]) (relationsWritten w) (relationIdMap w)"
    by (intro kindInv_same [OF i(3)]) (simp add: WayElement)
  ultimately show ?thesis
    by (simp add: idInv_def f)
next
  case (RelationElement r)
  with assms(2) have "writePartialRelation cfg r w = Inr w'" by simp
  then obtain m where m: "relationIdMap (relationPrelude w) = Some m"
    and c: "coreOf w' = (nodesWritten w, waysWritten w, relationsWritten w + 1,
       nodeIdMap w, wayIdMap w, Some (m(relationId r \<mapsto> currentRelationId w)),
       currentNodeId w, currentWayId w, currentRelationId w + 1, changesetUserId w,
       unresolvedWaynodeRefs w)"
    by (rule writePartialRelation_core)
  from c have f: "relationsWritten w' = relationsWritten w + 1" "relationIdMap w' = Some (m(relationId r \<mapsto> currentRelationId w))"
    "nodesWritten w' = nodesWritten w" "nodeIdMap w' = nodeIdMap w" "waysWritten w' = waysWritten w" "wayIdMap w' = wayIdMap w"
    by (simp_all add: coreOf_def)
  from assms(1) have i: "kindInv Node es (nodesWritten w) (nodeIdMap w)"
    "kindInv Way es (waysWritten w) (wayIdMap w)"
    "kindInv Relation es (relationsWritten w) (relationIdMap w)"
    by (simp_all add: idInv_def)
  have "kindInv Relation (es @ [e]) (relationsWritten w + 1) (Some (m(relationId r \<mapsto> currentRelationId w)))"
    using m by (intro kindInv_step [OF i(3)]) (simp_all add: RelationElement relationPrelude_fields)
  moreover have "kindInv Node (es @ [e]) (nodesWritten w) (nodeIdMap w)"
    by (intro kindInv_same [OF i(1)]) (simp add: RelationElement)
  moreover have "kindInv Way (es @ [e]) (waysWritten w) (wayIdMap w)"
    by (intro kindInv_same [OF i(2)]) (simp add: RelationElement)
  ultimately show ?thesis
    by (simp add: idInv_def f)
qed

lemma idInv_openWriter: "idInv [] (openWriter cfg)"
  by (simp add: idInv_def kindInv_def openWriter_def Let_def setConfiguration_def reset_def
      getLatestIdsFromDb_def)

lemma idInv_writeAll:
  "idInv es0 w0 \<Longrightarrow> writeAll cfg es w0 = Inr w \<Longrightarrow> idInv (es0 @ es) w"
proof (induction es arbitrary: es0 w0)
  case Nil
  then show ?case by simp
next
  case (Cons e es)
  from Cons.prems(2) obtain w1 where 1: "writePartial cfg e w0 = Inr w1"
    and 2: "writeAll cfg es w1 = Inr w"
    by (auto simp: bind_Inr)
  from Cons.IH [OF idInv_writePartial [OF Cons.prems(1) 1] 2] show ?case by simp
qed

lemma idInv_session: "writeAll cfg es (openWriter cfg) = Inr w \<Longrightarrow> idInv es w"
  using idInv_writeAll [OF idInv_openWriter] by fastforce

section \<open>Source ids\<close>

lemma writeAll_append:
  "writeAll cfg (es @ es') w = bind (writeAll cfg es w) (writeAll cfg es')"
  by (induction es arbitrary: w) (auto simp: bind_def split: sum.splits)

lemma pair_in_set_filter:
  "(k, i) \<in> set xs \<longleftrightarrow> i \<in> set (map snd (filter (\<lambda>x. fst x = k) xs))"
  by (induction xs) auto

lemma elementIdOf_in_set:
  "(k, i) \<in> set (map elementIdOf es) \<longleftrightarrow> i \<in> set (idsOfKind k es)"
  unfolding idsOfKind_def by (rule pair_in_set_filter)

lemma writePartial_duplicate:
  assumes "idInv es w" and "elementIdOf e \<in> set (map elementIdOf es)"
  shows "writePartial cfg e w = Inl UpdateNotSupported"
proof (cases e)
  case (NodeElement n)
  with assms(2) have i: "nodeId n \<in> set (idsOfKind Node es)"
    by (simp add: elementIdOf_in_set [symmetric] elementIdOf_def)
  then have ne: "idsOfKind Node es \<noteq> []" by auto
  with assms(1) obtain m where m: "nodeIdMap w = Some m" "dom m = set (idsOfKind Node es)"
    "nodesWritten w = int (length (idsOfKind Node es))"
    by (auto simp: idInv_def kindInv_def)
  with i ne have "nodesWritten w \<noteq> 0" "nodeIdMap w = Some m" "m (nodeId n) \<noteq> None"
    by auto
  then show ?thesis
    by (simp add: NodeElement writePartialNode_unfold nodePrelude_fields)
next
  case (WayElement way)
  with assms(2) have i: "wayId way \<in> set (idsOfKind Way es)"
    by (simp add: elementIdOf_in_set [symmetric] elementIdOf_def)
  then have ne: "idsOfKind Way es \<noteq> []" by auto
  with assms(1) obtain m where m: "wayIdMap w = Some m" "dom m = set (idsOfKind Way es)"
    "waysWritten w = int (length (idsOfKind Way es))"
    by (auto simp: idInv_def kindInv_def)
  with i ne have "waysWritten w \<noteq> 0" "wayIdMap w = Some m" "m (wayId way) \<noteq> None"
    by auto
  then show ?thesis
    by (simp add: WayElement writePartialWay_unfold wayPrelude_fields)
next
  case (RelationElement r)
  with assms(2) have i: "relationId r \<in> set (idsOfKind Relation es)"
    by (simp add: elementIdOf_in_set [symmetric] elementIdOf_def)
  then have ne: "idsOfKind Relation es \<noteq> []" by auto
  with assms(1) obtain m where m: "relationIdMap w = Some m" "dom m = set (idsOfKind Relation es)"
    "relationsWritten w = int (length (idsOfKind Relation es))"
    by (auto simp: idInv_def kindInv_def)
  with i ne have "relationsWritten w \<noteq> 0" "relationIdMap w = Some m" "m (relationId r) \<noteq> None"
    by auto
  then show ?thesis
    by (simp add: RelationElement writePartialRelation_unfold relationPrelude_fields)
qed

lemma writeAll_distinct:
  "idInv es0 w0 \<Longrightarrow> writeAll cfg es w0 = Inr w \<Longrightarrow>
   distinct (map elementIdOf es) \<and> set (map elementIdOf es) \<inter> set (map elementIdOf es0) = {}"
proof (induction es arbitrary: es0 w0)
  case Nil
  then show ?case by simp
next
  case (Cons e es)
  from Cons.prems(2) obtain w1 where 1: "writePartial cfg e w0 = Inr w1"
    and 2: "writeAll cfg es w1 = Inr w"
    by (auto simp: bind_Inr)
  have fresh: "elementIdOf e \<notin> set (map elementIdOf es0)"
    using writePartial_duplicate [OF Cons.prems(1), of e cfg] 1 by auto
  from Cons.IH [OF idInv_writePartial [OF Cons.prems(1) 1] 2] fresh
  show ?case by auto
qed

lemma writeChangesetToTable_Inl:
  "writeChangesetToTable cfg w = Inl e \<Longrightarrow> e = InvalidUserId \<or> e = NullPointer"
  by (auto simp: writeChangesetToTable_def Let_def currentDateTime_def bind_Inl writeLines_Inl
      split: if_splits)

section \<open>Coordinates\<close>

lemma writeTagsToTables_Inl:
  "writeTagsToTables tags dbId cur hist w = Inl e \<Longrightarrow> e = NullPointer"
proof (induction tags arbitrary: w)
  case Nil
  then show ?case by simp
next
  case (Cons kv tags)
  obtain k v where "kv = (k, v)" by (cases kv)
  with Cons show ?case by (auto simp: bind_Inl writeLines_Inl)
qed

lemma incrementChangesInChangeset_Inl:
  "incrementChangesInChangeset cfg w = Inl e \<Longrightarrow> e = InvalidUserId \<or> e = NullPointer"
  by (auto simp: incrementChangesInChangeset_def Let_def bind_Inl
      dest: writeChangesetToTable_Inl split: if_splits)

lemma writeRelationMember_Inl:
  "writeRelationMember r en m i w = Inl e \<Longrightarrow> e = UnsupportedMemberType \<or> e = NullPointer"
  by (auto simp: writeRelationMember_def bind_Inl writeLines_Inl
      split: ElementType.splits sum.splits)

lemma checkUnresolvedReferences_Inl:
  "checkUnresolvedReferences eid dbId w = Inl e \<Longrightarrow>
   e = UnsupportedMemberType \<or> e = NullPointer \<or> e = UnresolvedWaynodeRefFound"
  by (auto simp: checkUnresolvedReferences_def bind_Inl
      dest: writeRelationMember_Inl split: option.splits if_splits)

lemma writeNodeToTables_bad_latitude:
  "latitudeOutOfRange n \<Longrightarrow> writeNodeToTables cfg n dbId w = Inl InvalidLatitude"
  by (simp add: writeNodeToTables_def Let_def currentDateTime_def latitudeOutOfRange_def)

lemma writeNodeToTables_bad_longitude:
  "\<not> latitudeOutOfRange n \<Longrightarrow> longitudeOutOfRange n \<Longrightarrow>
   writeNodeToTables cfg n dbId w = Inl InvalidLongitude"
  by (simp add: writeNodeToTables_def Let_def currentDateTime_def latitudeOutOfRange_def
      longitudeOutOfRange_def)

lemma writeNodeToTables_good_Inl:
  assumes "\<not> latitudeOutOfRange n" and "\<not> longitudeOutOfRange n"
    and "writeNodeToTables cfg n dbId w = Inl e"
  shows "e = NullPointer"
proof -
  from assms obtain l1 l2 w1 where
    "bind (writeLines getCurrentNodesTableName l1 w1)
       (\<lambda>w2. writeLines getNodesTableName l2 w2) = Inl e"
    by (simp add: writeNodeToTables_def Let_def currentDateTime_def latitudeOutOfRange_def
        longitudeOutOfRange_def)
  then show ?thesis by (auto simp: bind_Inl writeLines_Inl)
qed

lemma writePartialNode_Inl:
  assumes "nodeIdMap (nodePrelude n w) = Some m" and "m (nodeId n) = None"
  shows "(writePartialNode cfg n w = Inl InvalidLatitude \<longleftrightarrow> latitudeOutOfRange n) \<and>
         (writePartialNode cfg n w = Inl InvalidLongitude \<longleftrightarrow>
            \<not> latitudeOutOfRange n \<and> longitudeOutOfRange n)"
proof -
  define w3 where "w3 = (nodePrelude n w)\<lparr>nodeIdMap := Some (m(nodeId n \<mapsto> currentNodeId (nodePrelude n w))),
                           currentNodeId := currentNodeId (nodePrelude n w) + 1\<rparr>"
  define d where "d = currentNodeId (nodePrelude n w)"
  define later where "later = (\<lambda>w4.
        bind (writeTagsToTables (nodeTags n) d
                getCurrentNodeTagsTableName getNodeTagsTableName w4) (\<lambda>w5.
        bind (incrementChangesInChangeset cfg
                (w5\<lparr>nodesWritten := nodesWritten w5 + 1,
                    nodeTagsWritten := nodeTagsWritten w5 + int (length (nodeTags n))\<rparr>))
          (\<lambda>w6. checkUnresolvedReferences (Node, nodeId n) d w6)))"
  have eq: "writePartialNode cfg n w = bind (writeNodeToTables cfg n d w3) later"
    using assms
    by (simp add: writePartialNode_unfold establishNewIdMapping_def bind_def w3_def d_def later_def)
  have later: "e \<noteq> InvalidLatitude \<and> e \<noteq> InvalidLongitude" if "later w4 = Inl e" for w4 e
    using that unfolding later_def
    by (auto simp: bind_Inl dest: writeTagsToTables_Inl incrementChangesInChangeset_Inl
        checkUnresolvedReferences_Inl)
  show ?thesis
  proof (cases "latitudeOutOfRange n")
    case True
    then show ?thesis
      by (simp add: eq writeNodeToTables_bad_latitude bind_def)
  next
    case lat: False
    show ?thesis
    proof (cases "longitudeOutOfRange n")
      case True
      with lat show ?thesis
        by (simp add: eq writeNodeToTables_bad_longitude bind_def)
    next
      case False
      have "e \<noteq> InvalidLatitude \<and> e \<noteq> InvalidLongitude"
        if "writePartialNode cfg n w = Inl e" for e
        using that lat False unfolding eq bind_Inl
        by (auto dest: writeNodeToTables_good_Inl later)
      with lat False show ?thesis by blast
    qed
  qed
qed

lemma sint_convertDegreesToNanodegrees:
  "- (2 ^ 31) \<le> r \<Longrightarrow> r < 2 ^ 31 \<Longrightarrow> sint (convertDegreesToNanodegrees r) = r"
  by (simp add: convertDegreesToNanodegrees_def sint_sbintrunc' signed_take_bit_int_eq_self)

section \<open>Changesets\<close>

section \<open>Numbers and rows as text\<close>

lemma nat_less_10_cases:
  "(d::nat) < 10 \<Longrightarrow>
   d = 0 \<or> d = 1 \<or> d = 2 \<or> d = 3 \<or> d = 4 \<or> d = 5 \<or> d = 6 \<or> d = 7 \<or> d = 8 \<or> d = 9"
  by arith

lemma digit_char_in: "digit_char d \<in> set ''0123456789''"
proof -
  have "d mod 10 < 10" by simp
  from nat_less_10_cases [OF this] show ?thesis
    unfolding digit_char_def by (elim disjE) simp_all
qed

lemma digits_chars: "set (digits n) \<subseteq> set ''0123456789''"
proof (induction n rule: digits.induct)
  case (1 n)
  show ?case
  proof (cases "n < 10")
    case True
    then show ?thesis using digit_char_in [of n] by (subst digits.simps) simp
  next
    case False
    with 1 have "set (digits (n div 10)) \<subseteq> set ''0123456789''" by simp
    with False digit_char_in [of "n mod 10"] show ?thesis by (subst digits.simps) simp
  qed
qed

lemma digits_not_Nil: "digits n \<noteq> []"
  by (subst digits.simps) simp

lemma number_chars: "set (number i) \<subseteq> set ''-0123456789''"
proof -
  have "set ''0123456789'' \<subseteq> set ''-0123456789''" by simp
  then have "set (digits n) \<subseteq> set ''-0123456789''" for n
    by (rule subset_trans [OF digits_chars])
  then show ?thesis by (simp add: number_def)
qed

lemma number_not_Nil: "number i \<noteq> []"
  by (simp add: number_def digits_not_Nil)

lemma digit_val_digit_char: "d < 10 \<Longrightarrow> digit_val (digit_char d) = d"
  by (drule nat_less_10_cases) (elim disjE; simp add: digit_char_def digit_val_def)

lemma is_digit_digit_char: "is_digit (digit_char d)"
  using digit_char_in [of d] by (simp only: is_digit_def)

lemma parse_digits_append:
  "parse_digits acc (xs @ ys) =
     (case parse_digits acc xs of None \<Rightarrow> None | Some v \<Rightarrow> parse_digits v ys)"
  by (induction xs arbitrary: acc) simp_all

lemma parse_digits_digits: "parse_digits 0 (digits n) = Some n"
proof (induction n rule: digits.induct)
  case (1 n)
  show ?case
  proof (cases "n < 10")
    case True
    then show ?thesis
      by (subst digits.simps) (simp add: is_digit_digit_char digit_val_digit_char)
  next
    case False
    with 1 have "parse_digits 0 (digits (n div 10)) = Some (n div 10)" by simp
    with False show ?thesis
      by (subst digits.simps)
        (simp add: parse_digits_append is_digit_digit_char digit_val_digit_char)
  qed
qed

lemma trimmed_id:
  assumes "s \<noteq> []" and "\<not> isSpace (hd s)" and "\<not> isSpace (last s)"
  shows "trimmed s = s"
proof -
  from assms have 1: "dropWhile isSpace s = s" by (cases s) simp_all
  from assms have "rev s \<noteq> []" "\<not> isSpace (hd (rev s))" by (simp_all add: hd_rev)
  then have "dropWhile isSpace (rev s) = rev s" by (cases "rev s") simp_all
  with 1 show ?thesis by (simp add: trimmed_def)
qed

lemma not_isSpace_number_char: "c \<in> set ''-0123456789'' \<Longrightarrow> \<not> isSpace c"
  unfolding isSpace_def by (elim set_ConsD [elim_format] disjE) simp_all

lemma trimmed_number: "trimmed (number i) = number i"
proof (rule trimmed_id)
  show "number i \<noteq> []" by (rule number_not_Nil)
  have "hd (number i) \<in> set (number i)" "last (number i) \<in> set (number i)"
    using number_not_Nil by simp_all
  then show "\<not> isSpace (hd (number i))" "\<not> isSpace (last (number i))"
    using number_chars not_isSpace_number_char by blast+
qed

lemma number_chars_no_sign:
  assumes "c \<in> set ''0123456789''"
  shows "c \<noteq> CHR ''-''" and "c \<noteq> CHR ''+''"
proof -
  have "CHR ''-'' \<notin> set ''0123456789''" "CHR ''+'' \<notin> set ''0123456789''" by simp_all
  with assms show "c \<noteq> CHR ''-''" and "c \<noteq> CHR ''+''" by blast+
qed

lemma toLong_number: "toLong (number i) = i"
proof (cases "i < 0")
  case True
  obtain c cs where d: "digits (nat (- i)) = c # cs"
    using digits_not_Nil [of "nat (- i)"] by (cases "digits (nat (- i))") auto
  have "trimmed (CHR ''-'' # c # cs) = CHR ''-'' # c # cs"
    using trimmed_number [of i] True d by (simp add: number_def)
  moreover have "parse_digits 0 (c # cs) = Some (nat (- i))"
    using parse_digits_digits [of "nat (- i)"] d by simp
  ultimately show ?thesis
    using True by (simp add: toLong_def number_def d del: parse_digits.simps)
next
  case False
  obtain c cs where d: "digits (nat i) = c # cs"
    using digits_not_Nil [of "nat i"] by (cases "digits (nat i)") auto
  have "c \<in> set (digits (nat i))" by (simp add: d)
  with digits_chars [of "nat i"] have "c \<in> set ''0123456789''" by (rule subsetD)
  then have c: "c \<noteq> CHR ''-''" "c \<noteq> CHR ''+''" by (rule number_chars_no_sign)+
  have "trimmed (c # cs) = c # cs"
    using trimmed_number [of i] False d by (simp add: number_def)
  moreover have "parse_digits 0 (c # cs) = Some (nat i)"
    using parse_digits_digits [of "nat i"] d by simp
  ultimately show ?thesis
    using False c by (simp add: toLong_def number_def d del: parse_digits.simps)
qed

lemma split_at_no_sep: "\<forall>c \<in> set s. \<not> p c \<Longrightarrow> split_at p s = [s]"
  by (induction s) simp_all

lemma split_at_append_sep:
  "\<forall>c \<in> set a. \<not> p c \<Longrightarrow> p x \<Longrightarrow> split_at p (a @ x # rest) = a # split_at p rest"
  by (induction a) simp_all

lemma splitTab_joinTab:
  "ps \<noteq> [] \<Longrightarrow> \<forall>p \<in> set ps. TAB \<notin> set p \<Longrightarrow> splitTab (joinTab ps) = ps"
proof (induction ps rule: joinTab.induct)
  case 1
  then show ?case by simp
next
  case (2 x)
  then have "\<forall>c \<in> set x. \<not> c = TAB" by auto
  then show ?case by (simp add: splitTab_def joinTab.simps split_at_no_sep)
next
  case (3 x y ys)
  then have "split_at (\<lambda>c. c = TAB) (joinTab (y # ys)) = y # ys"
    by (simp add: splitTab_def)
  moreover from 3 have "\<forall>c \<in> set x. \<not> c = TAB" by auto
  ultimately show ?case
    by (simp add: splitTab_def joinTab.simps split_at_append_sep)
qed

lemma number_no_TAB: "TAB \<notin> set (number i)"
proof -
  have "TAB \<notin> set ''-0123456789''" by simp
  with number_chars [of i] show ?thesis by blast
qed

lemma pad_chars: "set (pad w n) \<subseteq> set ''0123456789''"
proof -
  have "set (replicate k (CHR ''0'')) \<subseteq> {CHR ''0''}" for k
    by (simp add: set_replicate_conv_if)
  moreover have "{CHR ''0''} \<subseteq> set ''0123456789''" by simp
  ultimately have "set (replicate k (CHR ''0'')) \<subseteq> set ''0123456789''" for k
    by (rule subset_trans)
  with digits_chars [of n] show ?thesis by (simp add: pad_def)
qed

lemma datestring_chars: "set (datestring t) \<subseteq> set ''0123456789-:. ''"
proof -
  have "set ''0123456789'' \<subseteq> set ''0123456789-:. ''" by simp
  then have "set (pad w n) \<subseteq> set ''0123456789-:. ''" for w n
    by (rule subset_trans [OF pad_chars])
  then show ?thesis by (simp add: datestring_def)
qed

lemma datestring_no_TAB: "TAB \<notin> set (datestring t)"
proof -
  have "TAB \<notin> set ''0123456789-:. ''" by simp
  with datestring_chars [of t] show ?thesis by blast
qed

lemma rowLike_joinTab_number: "rowLike (joinTab (number i # ps))"
proof -
  have n: "number i \<noteq> []" by (rule number_not_Nil)
  then have "hd (number i) \<in> set (number i)" by simp
  with number_chars have h: "hd (number i) \<in> set ''-0123456789''" by (rule subsetD)
  show ?thesis
  proof (cases ps)
    case Nil
    with n h show ?thesis by (simp add: rowLike_def joinTab.simps)
  next
    case (Cons p ps')
    with n h show ?thesis by (simp add: rowLike_def joinTab.simps)
  qed
qed

lemma boundsColumns_form:
  "\<exists>a b c d. boundsColumns cfg env = [number a, number b, number c, number d]"
  by (cases "case env of None \<Rightarrow> nullEnvelope cfg | Some e \<Rightarrow> e")
    (auto simp: boundsColumns_def)

lemma numChanges_changeset_row:
  "numChanges (joinTab ([number i, number u, datestring t] @ boundsColumns cfg env @
      [datestring t', number n])) = n"
proof -
  obtain a b c d where b: "boundsColumns cfg env = [number a, number b, number c, number d]"
    using boundsColumns_form by blast
  have "splitTab (joinTab [number i, number u, datestring t, number a, number b, number c,
          number d, datestring t', number n]) =
        [number i, number u, datestring t, number a, number b, number c,
          number d, datestring t', number n]"
    by (rule splitTab_joinTab) (simp_all add: number_no_TAB datestring_no_TAB)
  then show ?thesis by (simp add: numChanges_def column_def b toLong_number)
qed

lemma writeChangesetToTable_effect:
  assumes "writeChangesetToTable cfg w = Inr w'"
  obtains row where
    "outputSections w' getChangesetsTableName =
       Some ((if currentChangesetId w = 1 then [changesetsHeader]
              else the (outputSections w getChangesetsTableName)) @ [row])"
    "currentChangesetId w = 1 \<or> outputSections w getChangesetsTableName \<noteq> None"
    "numChanges row = changesInChangeset w" "rowLike row"
    "changesInChangeset w' = 0" "currentChangesetId w' = currentChangesetId w"
proof -
  let ?row = "joinTab ([number (currentChangesetId w), number (changesetUserId w),
                        datestring (clock cfg (clockReads w))]
                       @ boundsColumns cfg (changesetBounds w)
                       @ [datestring (clock cfg (clockReads w)), number (changesInChangeset w)])"
  have r1: "numChanges ?row = changesInChangeset w" by (rule numChanges_changeset_row)
  have r2: "rowLike ?row" using rowLike_joinTab_number by simp
  from assms have
    "outputSections w' getChangesetsTableName =
       Some ((if currentChangesetId w = 1 then [changesetsHeader]
              else the (outputSections w getChangesetsTableName)) @ [?row]) \<and>
     (currentChangesetId w = 1 \<or> outputSections w getChangesetsTableName \<noteq> None) \<and>
     changesInChangeset w' = 0 \<and> currentChangesetId w' = currentChangesetId w"
    by (auto simp: writeChangesetToTable_def Let_def currentDateTime_def bind_Inr writeLines_Inr
        createTable_def changesetsHeader_def split: if_splits)
  with r1 r2 that show thesis by blast
qed

lemma csInv_cong: "csView w' = csView w \<Longrightarrow> csInv cfg t w' = csInv cfg t w"
  by (simp add: csView_def csInv_def cong: option.case_cong)

lemma quiet_csView:
  "quiet T w w' \<Longrightarrow> getChangesetsTableName \<notin> T \<Longrightarrow> csView w' = csView w"
  by (simp add: quiet_def csOf_def sameOutside_def csView_def)

lemma csInv_increment:
  assumes "csInv cfg t w" and "incrementChangesInChangeset cfg w = Inr w'"
  shows "csInv cfg (t + 1) w'"
proof (cases "changesInChangeset w + 1 = maxChangesetSize cfg")
  case False
  with assms(2) have "w' = w\<lparr>changesInChangeset := changesInChangeset w + 1\<rparr>"
    by (auto simp: incrementChangesInChangeset_def Let_def)
  with assms(1) False show ?thesis
    by (auto simp: csInv_def split: option.splits)
next
  case True
  let ?w1 = "w\<lparr>changesInChangeset := changesInChangeset w + 1\<rparr>"
  from True assms(2) obtain w2 where a: "writeChangesetToTable cfg ?w1 = Inr w2"
    and b: "w' = w2\<lparr>currentChangesetId := currentChangesetId w2 + 1,
                       changesInChangeset := 0,
                       changesetBounds := None,
                       changesetsWritten := changesetsWritten w2 + 1\<rparr>"
    by (auto simp: incrementChangesInChangeset_def Let_def bind_Inr)
  from a obtain row where
    s: "outputSections w2 getChangesetsTableName =
       Some ((if currentChangesetId ?w1 = 1 then [changesetsHeader]
              else the (outputSections ?w1 getChangesetsTableName)) @ [row])"
    and e: "currentChangesetId ?w1 = 1 \<or> outputSections ?w1 getChangesetsTableName \<noteq> None"
    and r: "numChanges row = changesInChangeset ?w1" "rowLike row"
    and c: "currentChangesetId w2 = currentChangesetId ?w1"
    by (rule writeChangesetToTable_effect)
  show ?thesis
  proof (cases "outputSections w getChangesetsTableName")
    case None
    with e have one: "currentChangesetId w = 1" by simp
    with s have "outputSections w' getChangesetsTableName = Some [changesetsHeader, row]"
      by (simp add: b)
    with assms(1) None True r c one show ?thesis
      by (simp add: csInv_def b)
  next
    case (Some content)
    with assms(1) have gt: "1 < currentChangesetId w" and ne: "content \<noteq> []"
      by (simp_all add: csInv_def)
    with s Some have "outputSections w' getChangesetsTableName = Some (content @ [row])"
      by (simp add: b)
    with assms(1) Some True r c gt ne show ?thesis
      by (simp add: csInv_def b)
  qed
qed

lemma csInv_quiet:
  "quiet T w w' \<Longrightarrow> getChangesetsTableName \<notin> T \<Longrightarrow> csInv cfg t w' = csInv cfg t w"
  by (rule csInv_cong) (rule quiet_csView)

lemma csView_nodePrelude: "csView (nodePrelude n w) = csView w"
  by (simp add: csView_def nodePrelude_def Let_def createNodeTables_def createTable_def)

lemma csView_wayPrelude: "csView (wayPrelude w) = csView w"
  by (simp add: csView_def wayPrelude_def createWayTables_def createTable_def)

lemma csView_relationPrelude: "csView (relationPrelude w) = csView w"
  by (simp add: csView_def relationPrelude_def createRelationTables_def createTable_def)

lemma csInv_writePartialNode:
  assumes "csInv cfg t w" and "writePartialNode cfg n w = Inr w'"
  shows "csInv cfg (t + 1) w'"
proof -
  from assms(2) obtain m w4 w5 w6 where
    4: "writeNodeToTables cfg n (currentNodeId (nodePrelude n w))
       ((nodePrelude n w)\<lparr>nodeIdMap := Some (m(nodeId n \<mapsto> currentNodeId (nodePrelude n w))),
                           currentNodeId := currentNodeId (nodePrelude n w) + 1\<rparr>) = Inr w4"
    and 5: "writeTagsToTables (nodeTags n) (currentNodeId (nodePrelude n w))
       getCurrentNodeTagsTableName getNodeTagsTableName w4 = Inr w5"
    and 6: "incrementChangesInChangeset cfg
       (w5\<lparr>nodesWritten := nodesWritten w5 + 1,
           nodeTagsWritten := nodeTagsWritten w5 + int (length (nodeTags n))\<rparr>) = Inr w6"
    and 7: "checkUnresolvedReferences (Node, nodeId n) (currentNodeId (nodePrelude n w)) w6 = Inr w'"
    by (rule writePartialNode_steps)
  have v: "csView ((nodePrelude n w)\<lparr>nodeIdMap := Some (m(nodeId n \<mapsto> currentNodeId (nodePrelude n w))),
                           currentNodeId := currentNodeId (nodePrelude n w) + 1\<rparr>) = csView w"
    using csView_nodePrelude [of n w] by (simp add: csView_def)
  have "csInv cfg t ((nodePrelude n w)\<lparr>nodeIdMap := Some (m(nodeId n \<mapsto> currentNodeId (nodePrelude n w))),
                           currentNodeId := currentNodeId (nodePrelude n w) + 1\<rparr>)"
    using assms(1) csInv_cong [OF v, of cfg t] by simp
  then have "csInv cfg t w4"
    using csInv_quiet [OF writeNodeToTables_quiet [OF 4], of cfg t] by simp
  then have "csInv cfg t w5"
    using csInv_quiet [OF writeTagsToTables_quiet [OF 5], of cfg t] by simp
  then have "csInv cfg t (w5\<lparr>nodesWritten := nodesWritten w5 + 1,
           nodeTagsWritten := nodeTagsWritten w5 + int (length (nodeTags n))\<rparr>)"
    by (simp add: csInv_def cong: option.case_cong)
  then have "csInv cfg (t + 1) w6" using 6 by (rule csInv_increment)
  then show ?thesis
    using csInv_quiet [OF checkUnresolvedReferences_quiet [OF 7], of cfg "t + 1"] by simp
qed

lemma csInv_writePartialWay:
  assumes "csInv cfg t w" and "writePartialWay cfg way w = Inr w'"
  shows "csInv cfg (t + 1) w'"
proof -
  from assms(2) obtain m w4 w5 w6 w7 where
    4: "writeWayToTables cfg (currentWayId (wayPrelude w))
       ((wayPrelude w)\<lparr>wayIdMap := Some (m(wayId way \<mapsto> currentWayId (wayPrelude w))),
                        currentWayId := currentWayId (wayPrelude w) + 1\<rparr>) = Inr w4"
    and 5: "writeWaynodesToTables (currentWayId (wayPrelude w)) (wayNodeIds way) w4 = Inr w5"
    and 6: "writeTagsToTables (wayTags way) (currentWayId (wayPrelude w))
       getCurrentWayTagsTableName getWayTagsTableName w5 = Inr w6"
    and 7: "incrementChangesInChangeset cfg
       (w6\<lparr>waysWritten := waysWritten w6 + 1,
           wayTagsWritten := wayTagsWritten w6 + int (length (wayTags way)),
           wayNodesWritten := wayNodesWritten w6 + int (length (wayNodeIds way))\<rparr>) = Inr w7"
    and 8: "checkUnresolvedReferences (Way, wayId way) (currentWayId (wayPrelude w)) w7 = Inr w'"
    by (rule writePartialWay_steps)
  have v: "csView ((wayPrelude w)\<lparr>wayIdMap := Some (m(wayId way \<mapsto> currentWayId (wayPrelude w))),
                        currentWayId := currentWayId (wayPrelude w) + 1\<rparr>) = csView w"
    using csView_wayPrelude [of w] by (simp add: csView_def)
  have "csInv cfg t ((wayPrelude w)\<lparr>wayIdMap := Some (m(wayId way \<mapsto> currentWayId (wayPrelude w))),
                        currentWayId := currentWayId (wayPrelude w) + 1\<rparr>)"
    using assms(1) csInv_cong [OF v, of cfg t] by simp
  then have "csInv cfg t w4"
    using csInv_quiet [OF writeElementRows_quiet [OF 4 [unfolded writeWayToTables_def]], of cfg t] by simp
  then have "csInv cfg t w5"
    using csInv_quiet [OF writeWaynodesLoop_quiet [OF 5 [unfolded writeWaynodesToTables_def]], of cfg t]
    by simp
  then have "csInv cfg t w6"
    using csInv_quiet [OF writeTagsToTables_quiet [OF 6], of cfg t] by simp
  then have "csInv cfg t (w6\<lparr>waysWritten := waysWritten w6 + 1,
           wayTagsWritten := wayTagsWritten w6 + int (length (wayTags way)),
           wayNodesWritten := wayNodesWritten w6 + int (length (wayNodeIds way))\<rparr>)"
    by (simp add: csInv_def cong: option.case_cong)
  then have "csInv cfg (t + 1) w7" using 7 by (rule csInv_increment)
  then show ?thesis
    using csInv_quiet [OF checkUnresolvedReferences_quiet [OF 8], of cfg "t + 1"] by simp
qed

lemma csInv_writePartialRelation:
  assumes "csInv cfg t w" and "writePartialRelation cfg r w = Inr w'"
  shows "csInv cfg (t + 1) w'"
proof -
  from assms(2) obtain m w4 w5 w6 w7 where
    4: "writeRelationToTables cfg (currentRelationId (relationPrelude w))
       ((relationPrelude w)\<lparr>relationIdMap :=
                               Some (m(relationId r \<mapsto> currentRelationId (relationPrelude w))),
                             currentRelationId := currentRelationId (relationPrelude w) + 1\<rparr>) = Inr w4"
    and 5: "writeRelationMembersLoop (relationId r) (currentRelationId (relationPrelude w))
       (relationMembers r) 1 w4 = Inr w5"
    and 6: "writeTagsToTables (relationTags r) (currentRelationId (relationPrelude w))
       getCurrentRelationTagsTableName getRelationTagsTableName w5 = Inr w6"
    and 7: "incrementChangesInChangeset cfg
       (w6\<lparr>relationsWritten := relationsWritten w6 + 1,
           relationTagsWritten := relationTagsWritten w6 + int (length (relationTags r)),
           relationMembersWritten :=
             relationMembersWritten w6 + int (length (relationMembers r))\<rparr>) = Inr w7"
    and 8: "checkUnresolvedReferences (Relation, relationId r) (currentRelationId (relationPrelude w)) w7 = Inr w'"
    by (rule writePartialRelation_steps)
  have v: "csView ((relationPrelude w)\<lparr>relationIdMap :=
                               Some (m(relationId r \<mapsto> currentRelationId (relationPrelude w))),
                             currentRelationId := currentRelationId (relationPrelude w) + 1\<rparr>) = csView w"
    using csView_relationPrelude [of w] by (simp add: csView_def)
  have "csInv cfg t ((relationPrelude w)\<lparr>relationIdMap :=
                               Some (m(relationId r \<mapsto> currentRelationId (relationPrelude w))),
                             currentRelationId := currentRelationId (relationPrelude w) + 1\<rparr>)"
    using assms(1) csInv_cong [OF v, of cfg t] by simp
  then have "csInv cfg t w4"
    using csInv_quiet [OF writeElementRows_quiet [OF 4 [unfolded writeRelationToTables_def]], of cfg t] by simp
  then have "csInv cfg t w5"
    using csInv_quiet [OF writeRelationMembersLoop_quiet [OF 5], of cfg t] by simp
  then have "csInv cfg t w6"
    using csInv_quiet [OF writeTagsToTables_quiet [OF 6], of cfg t] by simp
  then have "csInv cfg t (w6\<lparr>relationsWritten := relationsWritten w6 + 1,
           relationTagsWritten := relationTagsWritten w6 + int (length (relationTags r)),
           relationMembersWritten :=
             relationMembersWritten w6 + int (length (relationMembers r))\<rparr>)"
    by (simp add: csInv_def cong: option.case_cong)
  then have "csInv cfg (t + 1) w7" using 7 by (rule csInv_increment)
  then show ?thesis
    using csInv_quiet [OF checkUnresolvedReferences_quiet [OF 8], of cfg "t + 1"] by simp
qed

lemma csInv_writePartial:
  assumes "csInv cfg t w" and "writePartial cfg e w = Inr w'"
  shows "csInv cfg (t + 1) w'"
proof (cases e)
  case (NodeElement n)
  with assms(2) have "writePartialNode cfg n w = Inr w'" by simp
  with assms(1) show ?thesis by (rule csInv_writePartialNode)
next
  case (WayElement way)
  with assms(2) have "writePartialWay cfg way w = Inr w'" by simp
  with assms(1) show ?thesis by (rule csInv_writePartialWay)
next
  case (RelationElement r)
  with assms(2) have "writePartialRelation cfg r w = Inr w'" by simp
  with assms(1) show ?thesis by (rule csInv_writePartialRelation)
qed

lemma csInv_writeAll:
  "csInv cfg t w0 \<Longrightarrow> writeAll cfg es w0 = Inr w \<Longrightarrow> csInv cfg (t + int (length es)) w"
proof (induction es arbitrary: t w0)
  case Nil
  then show ?case by simp
next
  case (Cons e es)
  from Cons.prems(2) obtain w1 where 1: "writePartial cfg e w0 = Inr w1"
    and 2: "writeAll cfg es w1 = Inr w"
    by (auto simp: bind_Inr)
  from Cons.IH [OF csInv_writePartial [OF Cons.prems(1) 1] 2] show ?case
    by (simp add: add.assoc)
qed

lemma csInv_openWriter: "0 < maxChangesetSize cfg \<Longrightarrow> csInv cfg 0 (openWriter cfg)"
  by (simp add: csInv_def openWriter_def Let_def setConfiguration_def reset_def
      getLatestIdsFromDb_def)

lemma length_idsOfKind:
  "length (idsOfKind Node es) + length (idsOfKind Way es) + length (idsOfKind Relation es)
     = length es"
proof (induction es)
  case Nil
  show ?case by simp
next
  case (Cons a es)
  have "idsOfKind k (a # es) = idsOfKind k [a] @ idsOfKind k es" for k
    using idsOfKind_simps(2) [of k "[a]" es] by simp
  with Cons show ?case by (cases a) simp_all
qed

lemma written_total:
  "idInv es w \<Longrightarrow> nodesWritten w + waysWritten w + relationsWritten w = int (length es)"
  using length_idsOfKind [of es] by (simp add: idInv_def kindInv_def)

text \<open>What \<open>writeSequenceUpdates\<close> and \<open>lockIds\<close> leave untouched.\<close>

lemma writeSequenceUpdates_Inr:
  assumes "writeSequenceUpdates cfg c n wy r w = Inr w'"
  shows "\<exists>ls. w' = w\<lparr>outputSections := (outputSections w)(''sequence_updates'' \<mapsto> ls)\<rparr>"
proof -
  have 1: "writeLines ''sequence_updates'' l
             (w\<lparr>outputSections := (outputSections w)(''sequence_updates'' \<mapsto> ls)\<rparr>) =
           Inr (w\<lparr>outputSections := (outputSections w)(''sequence_updates'' \<mapsto> ls @ l)\<rparr>)"
    for l ls
    by (simp add: writeLines_def)
  from assms show ?thesis
    unfolding writeSequenceUpdates_def Let_def createTable_def
    by (simp add: 1 bind_def split: if_splits) blast+
qed

lemma writeSequenceUpdates_frame:
  assumes "writeSequenceUpdates cfg c n wy r w = Inr w'"
  shows "sameOutside {''sequence_updates''} w w'" "coreOf w' = coreOf w" "csOf w' = csOf w"
  using writeSequenceUpdates_Inr [OF assms]
  by (auto simp: sameOutside_def coreOf_def csOf_def)

lemma getLatestIdsFromDb_frame:
  "outputSections (getLatestIdsFromDb cfg w) = outputSections w"
  "nodesWritten (getLatestIdsFromDb cfg w) = nodesWritten w"
  "waysWritten (getLatestIdsFromDb cfg w) = waysWritten w"
  "relationsWritten (getLatestIdsFromDb cfg w) = relationsWritten w"
  "changesetsWritten (getLatestIdsFromDb cfg w) = changesetsWritten w"
  by (simp_all add: getLatestIdsFromDb_def Let_def)

lemma getLatestIdsFromDb_online:
  "mode cfg = ''online'' \<Longrightarrow>
   currentNodeId (getLatestIdsFromDb cfg w) = nextNodeId cfg - 1 \<and>
   currentWayId (getLatestIdsFromDb cfg w) = nextWayId cfg - 1 \<and>
   currentRelationId (getLatestIdsFromDb cfg w) = nextRelationId cfg - 1 \<and>
   currentChangesetId (getLatestIdsFromDb cfg w) = nextChangesetId cfg - 1"
  by (simp add: getLatestIdsFromDb_def Let_def)

lemma lockIds_Inr:
  assumes "lockIds cfg w = Inr (sql, w')"
  shows "sameOutside {''sequence_updates''} w w'"
    "coreOf w' = coreOf (getLatestIdsFromDb cfg w)"
    "csOf w' = csOf (getLatestIdsFromDb cfg w)"
    "nodesWritten w \<noteq> 0"
proof -
  from assms have n: "nodesWritten w \<noteq> 0" by (auto simp: lockIds_def split: if_splits)
  with assms obtain c nn wy r where
    s: "writeSequenceUpdates cfg c nn wy r (getLatestIdsFromDb cfg w) = Inr w'"
    by (auto simp: lockIds_def Let_def bind_Inr split: option.splits)
  from writeSequenceUpdates_frame [OF s] n
  show "sameOutside {''sequence_updates''} w w'"
    "coreOf w' = coreOf (getLatestIdsFromDb cfg w)"
    "csOf w' = csOf (getLatestIdsFromDb cfg w)"
    "nodesWritten w \<noteq> 0"
    by (simp_all add: sameOutside_def getLatestIdsFromDb_frame)
qed

text \<open>The ways in which \<open>finalizePartial\<close> returns a script.\<close>

lemma finalizePartial_Finished:
  assumes "finalizePartial cfg w = Inr (Finished out)"
  obtains
    (offline) w3 where "mode cfg = ''offline''" "flushFinal cfg w = Inr w3"
      "writeSequenceUpdates cfg (currentChangesetId w3 - 1) (currentNodeId w3 - 1)
         (currentWayId w3 - 1) (currentRelationId w3 - 1) w3 = Inr (finalWriter out)"
      "script out = writeCombinedSqlFile cfg (finalWriter out)"
  | (online) w3 where "mode cfg = ''online''" "flushFinal cfg w = Inr w3"
      "lockIds cfg w3 = Inr (executedSql out, finalWriter out)"
      "updateIdOffsetsInNewFile (finalWriter out) (writeCombinedSqlFile cfg w3) = Inr (script out)"
  | (other) "mode cfg \<noteq> ''offline''" "mode cfg \<noteq> ''online''"
      "flushFinal cfg w = Inr (finalWriter out)"
      "script out = writeCombinedSqlFile cfg (finalWriter out)"
proof -
  from assms have nd: "\<not> (nodesWritten w = 0 \<and> waysWritten w = 0 \<and> relationsWritten w = 0)"
    by (auto simp: finalizePartial_def)
  define w1 where "w1 = createTable ''byte_order_mark'' [[]] w"
  from assms nd obtain w2 where
    f: "(if changesInChangeset w1 > 0 then writeChangesetToTable cfg w1 else Inr w1) = Inr w2"
    unfolding finalizePartial_def Let_def w1_def [symmetric]
    by (cases "if changesInChangeset w1 > 0 then writeChangesetToTable cfg w1 else Inr w1")
      (simp_all add: nd)
  define w3 where "w3 = (if changesetsWritten w2 = 0
                          then w2\<lparr>changesetsWritten := changesetsWritten w2 + 1\<rparr>
                          else w2)"
  have ff: "flushFinal cfg w = Inr w3"
    using f by (simp add: flushFinal_def Let_def w1_def [symmetric] bind_def w3_def)
  have rest: "(case (if mode cfg = ''offline''
                         then writeSequenceUpdates cfg
                                (currentChangesetId w3 - 1) (currentNodeId w3 - 1)
                                (currentWayId w3 - 1) (currentRelationId w3 - 1) w3
                         else Inr w3) of
                     Inl e \<Rightarrow> Inl (e, [])
                   | Inr w4 \<Rightarrow>
                       (let sqlOutputFile = writeCombinedSqlFile cfg w4
                        in if mode cfg = ''online'' then
                             (case lockIds cfg w4 of
                                Inl e \<Rightarrow> Inl (e, [])
                              | Inr (lockElementIdsSql, w5) \<Rightarrow>
                                  (case updateIdOffsetsInNewFile w5 sqlOutputFile of
                                     Inl e \<Rightarrow> Inl (e, lockElementIdsSql)
                                   | Inr finalSqlOutputFile \<Rightarrow>
                                       Inr (Finished \<lparr>script = finalSqlOutputFile,
                                                      executedSql = lockElementIdsSql,
                                                      finalWriter = w5\<rparr>)))
                           else Inr (Finished \<lparr>script = sqlOutputFile,
                                               executedSql = [],
                                               finalWriter = w4\<rparr>))) = Inr (Finished out)"
    using assms nd f
    unfolding finalizePartial_def Let_def w1_def [symmetric] w3_def
    by simp
  show thesis
  proof (cases "mode cfg = ''offline''")
    case True
    then have no: "mode cfg \<noteq> ''online''" by simp
    from rest True no obtain w4 where
      "writeSequenceUpdates cfg (currentChangesetId w3 - 1) (currentNodeId w3 - 1)
         (currentWayId w3 - 1) (currentRelationId w3 - 1) w3 = Inr w4"
      "out = \<lparr>script = writeCombinedSqlFile cfg w4, executedSql = [], finalWriter = w4\<rparr>"
      by (auto simp: Let_def split: sum.splits)
    with True ff show ?thesis by (intro offline [of w3]) simp_all
  next
    case off: False
    show ?thesis
    proof (cases "mode cfg = ''online''")
      case True
      with rest off obtain sql w5 f where
        "lockIds cfg w3 = Inr (sql, w5)"
        "updateIdOffsetsInNewFile w5 (writeCombinedSqlFile cfg w3) = Inr f"
        "out = \<lparr>script = f, executedSql = sql, finalWriter = w5\<rparr>"
        by (auto simp: Let_def split: sum.splits prod.splits)
      with True ff show ?thesis by (intro online [of w3]) simp_all
    next
      case False
      with rest off have
        "out = \<lparr>script = writeCombinedSqlFile cfg w3, executedSql = [], finalWriter = w3\<rparr>"
        by (auto simp: Let_def)
      with False off ff show ?thesis by (intro other) simp_all
    qed
  qed
qed

lemma flushFinal_rows:
  assumes "csInv cfg t w" and "flushFinal cfg w = Inr w3"
  shows "list_all (\<lambda>r. numChanges r \<le> maxChangesetSize cfg) (changesetRows w3) \<and>
         sum_list (map numChanges (changesetRows w3)) = t \<and>
         nodesWritten w3 = nodesWritten w \<and> waysWritten w3 = waysWritten w \<and>
         relationsWritten w3 = relationsWritten w"
proof -
  define w1 where "w1 = createTable ''byte_order_mark'' [[]] w"
  have v1: "csView w1 = csView w" "coreOf w1 = coreOf w"
    by (simp_all add: w1_def csView_def coreOf_def createTable_def)
  then have i1: "csInv cfg t w1" using assms(1) csInv_cong [of w1 w cfg t] by simp
  from assms(2) obtain w2 where
    f: "(if changesInChangeset w1 > 0 then writeChangesetToTable cfg w1 else Inr w1) = Inr w2"
    and w3: "w3 = (if changesetsWritten w2 = 0
                       then w2\<lparr>changesetsWritten := changesetsWritten w2 + 1\<rparr>
                       else w2)"
    by (auto simp: flushFinal_def Let_def w1_def [symmetric] bind_Inr)
  have rows3: "changesetRows w3 = changesetRows w2" "coreOf w3 = coreOf w2"
    by (simp_all add: w3 changesetRows_def coreOf_def)
  have "list_all (\<lambda>r. numChanges r \<le> maxChangesetSize cfg) (changesetRows w2) \<and>
         sum_list (map numChanges (changesetRows w2)) = t \<and> coreOf w2 = coreOf w1"
  proof (cases "changesInChangeset w1 > 0")
    case False
    with f have "w2 = w1" by simp
    with i1 False show ?thesis
      by (auto simp: csInv_def changesetRows_def list_all_iff split: option.splits)
  next
    case True
    with f have wr: "writeChangesetToTable cfg w1 = Inr w2" by simp
    then obtain row where
      s: "outputSections w2 getChangesetsTableName =
       Some ((if currentChangesetId w1 = 1 then [changesetsHeader]
              else the (outputSections w1 getChangesetsTableName)) @ [row])"
      and e: "currentChangesetId w1 = 1 \<or> outputSections w1 getChangesetsTableName \<noteq> None"
      and r: "numChanges row = changesInChangeset w1"
      by (rule writeChangesetToTable_effect)
    have c: "coreOf w2 = coreOf w1" using wr by (rule writeChangesetToTable_frame(1))
    show ?thesis
    proof (cases "outputSections w1 getChangesetsTableName")
      case None
      with e s have "changesetRows w2 = [row]" by (simp add: changesetRows_def)
      with i1 None r c show ?thesis by (simp add: csInv_def)
    next
      case (Some content)
      with i1 have "1 < currentChangesetId w1" "content \<noteq> []" by (simp_all add: csInv_def)
      with s Some have "changesetRows w2 = tl content @ [row]" by (simp add: changesetRows_def)
      with i1 Some r c show ?thesis by (simp add: csInv_def list_all_iff)
    qed
  qed
  with rows3 v1 show ?thesis by (simp add: coreOf_def)
qed

section \<open>Node rows, from the writer to the rewritten script\<close>

lemma trimmed_Cons:
  assumes "\<not> isSpace x"
  shows "trimmed (x # xs) = x # rev (dropWhile isSpace (rev xs))"
proof -
  have "dropWhile isSpace (rev xs @ [x]) = dropWhile isSpace (rev xs) @ [x]"
    using assms by (simp add: dropWhile_append)
  with assms show ?thesis by (simp add: trimmed_def)
qed

lemma rowLike_trimmed: "rowLike l \<Longrightarrow> rowLike (trimmed l)"
proof -
  assume r: "rowLike l"
  then obtain x xs where l: "l = x # xs" and x: "x \<in> set ''-0123456789''"
    by (cases l) (simp_all add: rowLike_def)
  from x have "\<not> isSpace x" by (rule not_isSpace_number_char)
  then have "trimmed l = x # rev (dropWhile isSpace (rev xs))"
    unfolding l by (rule trimmed_Cons)
  with x show ?thesis by (simp add: rowLike_def)
qed

lemma rowLike_not_header:
  assumes "rowLike l" and "hd h \<notin> set ''-0123456789''"
  shows "l \<noteq> h"
  using assms by (auto simp: rowLike_def)

lemma contains_hd: "contains s r \<Longrightarrow> s \<noteq> [] \<Longrightarrow> hd s \<in> set r"
proof (induction r)
  case Nil
  then show ?case by simp
next
  case (Cons c cs)
  then show ?case by (cases s) auto
qed

lemma joinTab_chars: "set (joinTab ps) \<subseteq> (\<Union>p \<in> set ps. set p) \<union> {TAB}"
  by (induction ps rule: joinTab.induct) (auto simp: joinTab.simps)

lemma last_joinTab: "ps \<noteq> [] \<Longrightarrow> last ps \<noteq> [] \<Longrightarrow> last (joinTab ps) = last (last ps)"
proof (induction ps rule: joinTab.induct)
  case 1
  then show ?case by simp
next
  case (2 x)
  then show ?case by (simp add: joinTab.simps)
next
  case (3 x y ys)
  then have "joinTab (y # ys) \<noteq> []" by (cases ys) (auto simp: joinTab.simps)
  with 3 show ?case by (simp add: joinTab.simps)
qed

lemma nodeFields_no_TAB:
  assumes "rest = [] \<or> rest = [nullField]"
  shows "\<forall>p \<in> set ([number i, number y, number x, number c, ''t'', datestring d, number t, ''1'']
                     @ rest). TAB \<notin> set p"
  using assms by (elim disjE) (simp_all add: number_no_TAB datestring_no_TAB)

lemma nodeRow_split:
  assumes "rest = [] \<or> rest = [nullField]"
  shows "splitTab (joinTab ([number i, number y, number x, number c, ''t'', datestring d, number t, ''1'']
                     @ rest)) =
         [number i, number y, number x, number c, ''t'', datestring d, number t, ''1''] @ rest"
  by (rule splitTab_joinTab) (simp, rule nodeFields_no_TAB [OF assms])

lemma nodeRow_rowLike: "nodeRow i r \<Longrightarrow> rowLike r"
  using rowLike_joinTab_number by (auto simp: nodeRow_def)

lemma nodeRow_id: "nodeRow i r \<Longrightarrow> toLong (column 0 r) = i"
proof -
  assume "nodeRow i r"
  then obtain y x c d t rest where
    r: "r = joinTab ([number i, number y, number x, number c, ''t'', datestring d, number t, ''1'']
                     @ rest)"
    and rest: "rest = [] \<or> rest = [nullField]"
    by (auto simp: nodeRow_def)
  have "splitTab r = [number i, number y, number x, number c, ''t'', datestring d, number t, ''1''] @ rest"
    unfolding r by (rule nodeRow_split [OF rest])
  then show ?thesis by (simp add: column_def toLong_number)
qed

lemma no_C_number: "CHR ''C'' \<notin> set (number i)"
proof -
  have "CHR ''C'' \<notin> set ''-0123456789''" by simp
  with number_chars [of i] show ?thesis by blast
qed

lemma no_C_datestring: "CHR ''C'' \<notin> set (datestring t)"
proof -
  have "CHR ''C'' \<notin> set ''0123456789-:. ''" by simp
  with datestring_chars [of t] show ?thesis by blast
qed

lemma nodeRow_no_C: "nodeRow i r \<Longrightarrow> CHR ''C'' \<notin> set r"
proof -
  assume "nodeRow i r"
  then obtain y x c d t rest where
    r: "r = joinTab ([number i, number y, number x, number c, ''t'', datestring d, number t, ''1'']
                     @ rest)"
    and rest: "rest = [] \<or> rest = [nullField]"
    by (auto simp: nodeRow_def)
  from rest have "\<forall>p \<in> set ([number i, number y, number x, number c, ''t'', datestring d, number t, ''1'']
                     @ rest). CHR ''C'' \<notin> set p"
    by (elim disjE) (simp_all add: no_C_number no_C_datestring)
  moreover have "CHR ''C'' \<noteq> TAB" by simp
  ultimately show ?thesis
    using joinTab_chars [of "[number i, number y, number x, number c, ''t'', datestring d, number t, ''1'']
                     @ rest"]
    unfolding r by blast
qed

lemma nodeRow_no_COPY: "nodeRow i r \<Longrightarrow> \<not> contains ''COPY'' r"
  using contains_hd [of "''COPY''" r] nodeRow_no_C [of i r] by auto

lemma nodeRow_trimmed: "nodeRow i r \<Longrightarrow> trimmed r = r"
proof (rule trimmed_id)
  assume n: "nodeRow i r"
  then have rl: "rowLike r" by (rule nodeRow_rowLike)
  then show "r \<noteq> []" by (simp add: rowLike_def)
  from rl show "\<not> isSpace (hd r)"
    using not_isSpace_number_char by (simp add: rowLike_def)
  from n obtain y x c d t rest where
    r: "r = joinTab ([number i, number y, number x, number c, ''t'', datestring d, number t, ''1'']
                     @ rest)"
    and rest: "rest = [] \<or> rest = [nullField]"
    by (auto simp: nodeRow_def)
  from rest have "last r = CHR ''1'' \<or> last r = CHR ''N''"
    unfolding r by (elim disjE) (simp_all add: last_joinTab)
  then show "\<not> isSpace (last r)" by (auto simp: isSpace_def)
qed

lemma nodeRow_not_special: "nodeRow i r \<Longrightarrow> r \<noteq> [] \<and> r \<noteq> terminator"
  by (drule nodeRow_rowLike) (auto simp: rowLike_def)

lemma nodeRow_update:
  assumes "nodeRow i r" and "t = getCurrentNodesTableName \<or> t = getNodesTableName"
  shows "\<exists>r'. updateLine w t r = Inr r' \<and> nodeRow (i + currentNodeId w) r'"
proof -
  from assms(1) obtain y x c d tl rest where
    r: "r = joinTab ([number i, number y, number x, number c, ''t'', datestring d, number tl, ''1'']
                     @ rest)"
    and rest: "rest = [] \<or> rest = [nullField]"
    by (auto simp: nodeRow_def)
  have s: "splitTab r = [number i, number y, number x, number c, ''t'', datestring d, number tl, ''1''] @ rest"
    unfolding r by (rule nodeRow_split [OF rest])
  have u: "updateLine w t r =
          Inr (joinTab ([number (i + currentNodeId w), number y, number x,
                         number (c + currentChangesetId w), ''t'', datestring d, number tl, ''1'']
                        @ rest))"
    using assms(2)
    by (elim disjE) (simp_all add: updateLine_def s addOffset_def bind_def toLong_number)
  show ?thesis unfolding u nodeRow_def using rest by blast
qed

lemma addOffset_first:
  "addOffset 0 off lp = Inr p \<Longrightarrow> \<exists>i ps. p = number i # ps"
  by (cases lp) (auto simp: addOffset_def split: if_splits)

lemma addOffset_later:
  "addOffset k off (number i # ps) = Inr p \<Longrightarrow> 0 < k \<Longrightarrow> \<exists>ps'. p = number i # ps'"
  by (cases k) (auto simp: addOffset_def split: if_splits)

lemma addOffset_twice:
  assumes "bind (addOffset 0 a lp) (\<lambda>p. bind (addOffset k b p) (\<lambda>p. Inr (joinTab p))) = Inr l" "0 < k"
  shows "rowLike l"
proof -
  from assms(1) obtain p q where 1: "addOffset 0 a lp = Inr p" and 2: "addOffset k b p = Inr q"
    and l: "l = joinTab q"
    by (auto simp: bind_Inr)
  from addOffset_first [OF 1] obtain i ps where "p = number i # ps" by blast
  with addOffset_later [OF _ assms(2)] 2 obtain ps' where "q = number i # ps'" by blast
  with l show ?thesis by (simp add: rowLike_joinTab_number)
qed

lemma addOffset_once:
  assumes "bind (addOffset 0 a lp) (\<lambda>p. Inr (joinTab p)) = Inr l"
  shows "rowLike l"
proof -
  from assms(1) obtain p where 1: "addOffset 0 a lp = Inr p" and l: "l = joinTab p"
    by (auto simp: bind_Inr)
  from addOffset_first [OF 1] obtain i ps where "p = number i # ps" by blast
  with l show ?thesis by (simp add: rowLike_joinTab_number)
qed

lemma addOffset_member:
  assumes "bind (addOffset 0 a lp) (\<lambda>p.
             if 2 < length p then
               (if toLower (p ! 1) = ''node''
                then Inr (joinTab (p[2 := number (toLong (p ! 2) + b)]))
                else if toLower (p ! 1) = ''way''
                then Inr (joinTab (p[2 := number (toLong (p ! 2) + c)]))
                else Inr (joinTab p))
             else Inl IndexOutOfRange) = Inr l"
  shows "rowLike l"
proof -
  from assms(1) obtain p where 1: "addOffset 0 a lp = Inr p"
    and l: "l = joinTab p \<or> (\<exists>v. l = joinTab (p[2 := v]))"
    by (auto simp: bind_Inr Let_def split: if_splits)
  from addOffset_first [OF 1] obtain i ps where "p = number i # ps" by blast
  with l show ?thesis by (auto simp: rowLike_joinTab_number)
qed

lemma updateLine_same_or_rowLike:
  assumes "updateLine w t line = Inr line'"
  shows "line' = line \<or> rowLike line'"
  using assms unfolding updateLine_def Let_def
  apply (split if_splits)
   apply (rule disjI2, erule addOffset_once)
  apply (split if_splits)
   apply (rule disjI2, erule addOffset_twice, simp)
  apply (split if_splits)
   apply (rule disjI2, erule addOffset_twice, simp)
  apply (split if_splits)
   apply (rule disjI2, erule addOffset_twice, simp)
  apply (split if_splits)
   apply (rule disjI2, erule addOffset_twice, simp)
  apply (split if_splits)
   apply (rule disjI2, erule addOffset_member)
  apply (split if_splits)
   apply (rule disjI2, erule addOffset_once)
  apply (split if_splits)
   apply (rule disjI2, erule addOffset_once)
  apply (split if_splits)
   apply (rule disjI2, erule addOffset_once)
  apply simp
  done

lemma updateLines_Cons_Inr:
  assumes "updateLines w t (l # ls) = Inr out"
  shows "\<exists>t' o' out'. out = o' # out' \<and> updateLines w t' ls = Inr out' \<and>
           (o' = trimmed l \<or> rowLike o')"
proof (cases "contains ''COPY'' (trimmed l)")
  case True
  with assms obtain a t2 rest where sp: "splitSpace (trimmed l) = a # t2 # rest"
    by (auto simp: Let_def split: list.splits)
  with assms True obtain out' where "updateLines w (trimmed t2) ls = Inr out'"
    "out = trimmed l # out'"
    by (auto simp: Let_def bind_Inr)
  then show ?thesis by blast
next
  case False
  show ?thesis
  proof (cases "trimmed l \<noteq> [] \<and> trimmed l \<noteq> terminator")
    case True
    with assms False obtain line' out' where u: "updateLine w t (trimmed l) = Inr line'"
      and r: "updateLines w t ls = Inr out'" "out = line' # out'"
      by (auto simp: Let_def bind_Inr)
    from updateLine_same_or_rowLike [OF u] r show ?thesis by blast
  next
    case no: False
    with assms False obtain out' where "updateLines w [] ls = Inr out'" "out = trimmed l # out'"
      by (auto simp: Let_def bind_Inr)
    then show ?thesis by blast
  qed
qed

lemma updateLines_append:
  assumes "updateLines w t (pre @ rest) = Inr out"
    and "\<forall>l \<in> set pre. trimmed l \<noteq> h"
    and "hd h \<notin> set ''-0123456789''"
  shows "\<exists>t' o1 o2. out = o1 @ o2 \<and> h \<notin> set o1 \<and> updateLines w t' rest = Inr o2"
  using assms(1,2)
proof (induction pre arbitrary: t out)
  case Nil
  then have "out = [] @ out \<and> h \<notin> set [] \<and> updateLines w t rest = Inr out" by simp
  then show ?case by blast
next
  case (Cons l pre)
  from Cons.prems(1) have "updateLines w t (l # (pre @ rest)) = Inr out" by simp
  from updateLines_Cons_Inr [OF this] obtain t' o' out' where
    o: "out = o' # out'" and u: "updateLines w t' (pre @ rest) = Inr out'"
    and d: "o' = trimmed l \<or> rowLike o'"
    by blast
  from Cons.prems(2) have p: "\<forall>l \<in> set pre. trimmed l \<noteq> h" and l: "trimmed l \<noteq> h" by simp_all
  from d l assms(3) have n: "o' \<noteq> h" using rowLike_not_header by blast
  from Cons.IH [OF u p] obtain t'' o1 o2 where
    "out' = o1 @ o2" "h \<notin> set o1" "updateLines w t'' rest = Inr o2" by blast
  with o n have "out = (o' # o1) @ o2 \<and> h \<notin> set (o' # o1) \<and> updateLines w t'' rest = Inr o2"
    by auto
  then show ?case by blast
qed

lemma updateLines_terminator:
  "updateLines w t (terminator # post) = Inr out \<Longrightarrow> \<exists>post'. out = terminator # post'"
  by (auto simp: Let_def bind_Inr trimmed_def isSpace_def)

lemma updateLines_rows:
  assumes "t = getCurrentNodesTableName \<or> t = getNodesTableName"
    and "list_all2 nodeRow ids rows"
    and "updateLines w t (rows @ terminator # post) = Inr out"
  shows "\<exists>rows' post'. out = rows' @ terminator # post' \<and>
           list_all2 nodeRow (map (\<lambda>i. i + currentNodeId w) ids) rows'"
  using assms(2,3)
proof (induction ids rows arbitrary: out rule: list_all2_induct)
  case Nil
  then have "updateLines w t (terminator # post) = Inr out"
    by (simp only: append_Nil)
  from updateLines_terminator [OF this] obtain post' where "out = terminator # post'"
    by blast
  then have "out = [] @ terminator # post' \<and>
             list_all2 nodeRow (map (\<lambda>i. i + currentNodeId w) []) []" by simp
  then show ?case by blast
next
  case (Cons i ids r rows)
  from nodeRow_update [OF Cons.hyps(1) assms(1)] obtain r' where
    u: "updateLine w t r = Inr r'" and n: "nodeRow (i + currentNodeId w) r'" by blast
  have f: "trimmed r = r" "\<not> contains ''COPY'' r" "r \<noteq> []" "r \<noteq> terminator"
    using nodeRow_trimmed [OF Cons.hyps(1)] nodeRow_no_COPY [OF Cons.hyps(1)]
      nodeRow_not_special [OF Cons.hyps(1)] by simp_all
  from Cons.prems have "updateLines w t (r # (rows @ terminator # post)) = Inr out" by simp
  with f u obtain out' where o: "updateLines w t (rows @ terminator # post) = Inr out'"
    "out = r' # out'"
    by (auto simp: Let_def bind_Inr simp del: contains.simps)
  from Cons.IH [OF o(1)] obtain rows' post' where
    "out' = rows' @ terminator # post'"
    "list_all2 nodeRow (map (\<lambda>i. i + currentNodeId w) ids) rows'" by blast
  with o(2) n have "out = (r' # rows') @ terminator # post' \<and>
     list_all2 nodeRow (map (\<lambda>i. i + currentNodeId w) (i # ids)) (r' # rows')" by simp
  then show ?case by blast
qed

lemma sectionRows_found:
  assumes "h \<notin> set pre" and "\<forall>r \<in> set rows. r \<noteq> terminator"
  shows "sectionRows h (pre @ h # rows @ terminator # post) = rows"
proof -
  from assms(1) have "\<And>x. x \<in> set pre \<Longrightarrow> x \<noteq> h" by blast
  then have "dropWhile (\<lambda>l. l \<noteq> h) (pre @ h # rows @ terminator # post) =
      h # rows @ terminator # post"
    by (simp add: dropWhile_append2)
  moreover from assms(2) have "takeWhile (\<lambda>l. l \<noteq> terminator) (rows @ terminator # post) = rows"
    by (simp add: takeWhile_append2)
  ultimately show ?thesis by (simp add: sectionRows_def)
qed

lemma header_facts:
  assumes "h = currentNodesHeader \<or> h = nodesHeader"
  shows "trimmed h = h" "hd h \<notin> set ''-0123456789''" "contains ''COPY'' h"
  using assms
  by (auto simp: currentNodesHeader_def nodesHeader_def copyHeader_def trimmed_def isSpace_def)

lemma header_table:
  "\<exists>a rest. splitSpace currentNodesHeader = a # getCurrentNodesTableName # rest"
  "\<exists>a rest. splitSpace nodesHeader = a # getNodesTableName # rest"
  by (simp_all add: currentNodesHeader_def nodesHeader_def copyHeader_def splitSpace_def isSpace_def)

lemma trimmed_table:
  "trimmed getCurrentNodesTableName = getCurrentNodesTableName"
  "trimmed getNodesTableName = getNodesTableName"
  by (simp_all add: trimmed_def isSpace_def)

lemma updateLines_header:
  assumes "h = currentNodesHeader \<and> t' = getCurrentNodesTableName \<or>
           h = nodesHeader \<and> t' = getNodesTableName"
    and "updateLines w t (h # ls) = Inr out"
  shows "\<exists>out'. out = h # out' \<and> updateLines w t' ls = Inr out'"
proof -
  from assms(1) have h: "h = currentNodesHeader \<or> h = nodesHeader" by blast
  from assms(1) header_table obtain a rest where sp: "splitSpace h = a # t' # rest" by blast
  from assms(1) trimmed_table have tt: "trimmed t' = t'" by auto
  from assms(2) have "bind (updateLines w t' ls) (\<lambda>out. Inr (h # out)) = Inr out"
    by (simp add: Let_def header_facts [OF h] sp tt del: contains.simps)
  then show ?thesis by (auto simp: bind_Inr)
qed

lemma nodeRows_not_terminator:
  "list_all2 nodeRow ids rows \<Longrightarrow> \<forall>r \<in> set rows. r \<noteq> terminator"
  by (induction ids rows rule: list_all2_induct) (simp_all add: nodeRow_not_special)

lemma nodeRows_ids:
  "list_all2 nodeRow ids rows \<Longrightarrow> map (\<lambda>r. toLong (column 0 r)) rows = ids"
  by (induction ids rows rule: list_all2_induct) (simp_all add: nodeRow_id)

lemma rewritten_section:
  assumes "h = currentNodesHeader \<and> t = getCurrentNodesTableName \<or>
           h = nodesHeader \<and> t = getNodesTableName"
    and "updateLines w t0 (pre @ h # rows @ terminator # post) = Inr out"
    and "\<forall>l \<in> set pre. trimmed l \<noteq> h"
    and "list_all2 nodeRow ids rows"
  shows "map (\<lambda>r. toLong (column 0 r)) (sectionRows h out) = map (\<lambda>i. i + currentNodeId w) ids"
proof -
  from assms(1) have h: "h = currentNodesHeader \<or> h = nodesHeader"
    and t: "t = getCurrentNodesTableName \<or> t = getNodesTableName" by blast+
  from updateLines_append [OF assms(2,3) header_facts(2) [OF h]] obtain t' o1 o2 where
    o: "out = o1 @ o2" "h \<notin> set o1"
    and 2: "updateLines w t' (h # rows @ terminator # post) = Inr o2" by blast
  from updateLines_header [OF assms(1) 2] obtain o3 where
    o2: "o2 = h # o3" and 3: "updateLines w t (rows @ terminator # post) = Inr o3" by blast
  from updateLines_rows [OF t assms(4) 3] obtain rows' post' where
    o3: "o3 = rows' @ terminator # post'"
    and r: "list_all2 nodeRow (map (\<lambda>i. i + currentNodeId w) ids) rows'" by blast
  have "sectionRows h out = rows'"
    unfolding o o2 o3 using o(2) nodeRows_not_terminator [OF r] by (rule sectionRows_found)
  with nodeRows_ids [OF r] show ?thesis by simp
qed

lemma plain_section:
  assumes "h = currentNodesHeader \<or> h = nodesHeader"
    and "\<forall>l \<in> set pre. trimmed l \<noteq> h"
    and "list_all2 nodeRow ids rows"
  shows "map (\<lambda>r. toLong (column 0 r)) (sectionRows h (pre @ h # rows @ terminator # post)) = ids"
proof -
  from assms(2) header_facts(1) [OF assms(1)] have "h \<notin> set pre" by auto
  then have "sectionRows h (pre @ h # rows @ terminator # post) = rows"
    using nodeRows_not_terminator [OF assms(3)] by (rule sectionRows_found)
  with nodeRows_ids [OF assms(3)] show ?thesis by simp
qed

lemma nodeSections_same:
  assumes "nodeSections f k w"
    and "outputSections w' getCurrentNodesTableName = outputSections w getCurrentNodesTableName"
    and "outputSections w' getNodesTableName = outputSections w getNodesTableName"
    and "outputSections w' getCurrentNodeTagsTableName = outputSections w getCurrentNodeTagsTableName"
  shows "nodeSections f k w'"
  using assms by (simp add: nodeSections_def)

lemma changesetsShaped_same:
  "changesetsShaped w \<Longrightarrow>
   outputSections w' getChangesetsTableName = outputSections w getChangesetsTableName \<Longrightarrow>
   changesetsShaped w'"
  by (simp add: changesetsShaped_def)

lemma quiet_nodeSections:
  assumes "quiet T w w'" and "nodeSections f k w"
    and "getCurrentNodesTableName \<notin> T" "getNodesTableName \<notin> T" "getCurrentNodeTagsTableName \<notin> T"
  shows "nodeSections f k w'"
  using assms(2)
  by (rule nodeSections_same) (insert assms(1,3-5), simp_all add: quiet_def sameOutside_def)

lemma quiet_changesetsShaped:
  assumes "quiet T w w'" and "changesetsShaped w" and "getChangesetsTableName \<notin> T"
  shows "changesetsShaped w'"
  using assms(2)
  by (rule changesetsShaped_same) (insert assms(1,3), simp_all add: quiet_def sameOutside_def)

lemma quiet_counters:
  "quiet T w w' \<Longrightarrow> nodesWritten w' = nodesWritten w \<and> currentNodeId w' = currentNodeId w"
  by (simp add: quiet_def coreOf_def)

lemma localIds_Suc: "localIds f (Suc k) = localIds f k @ [f + int k]"
  by (simp add: localIds_def)

lemma nodePrelude_sections:
  assumes "nodeInv f k w"
  shows "nodeSections f k (nodePrelude n w)" "changesetsShaped (nodePrelude n w)"
proof -
  show "changesetsShaped (nodePrelude n w)"
    using assms
    by (simp add: nodeInv_def changesetsShaped_def nodePrelude_def Let_def createNodeTables_def
        createTable_def)
  show "nodeSections f k (nodePrelude n w)"
  proof (cases "k = 0")
    case True
    with assms have "nodesWritten w = 0" by (simp add: nodeInv_def)
    then show ?thesis
      by (simp add: True nodeSections_def localIds_def nodePrelude_def Let_def createNodeTables_def
          createTable_def currentNodesHeader_def nodesHeader_def currentNodeTagsHeader_def)
  next
    case False
    with assms have "nodesWritten w \<noteq> 0" "nodeSections f k w" by (simp_all add: nodeInv_def)
    then show ?thesis
      by (simp add: nodeSections_def nodePrelude_def Let_def)
  qed
qed

lemma writeNodeToTables_effect:
  assumes "writeNodeToTables cfg n i w = Inr w'"
  shows "\<exists>r1 r2 c1 c2.
           outputSections w getCurrentNodesTableName = Some c1 \<and>
           outputSections w getNodesTableName = Some c2 \<and>
           outputSections w' getCurrentNodesTableName = Some (c1 @ [r1]) \<and>
           outputSections w' getNodesTableName = Some (c2 @ [r2]) \<and>
           nodeRow i r1 \<and> nodeRow i r2"
proof -
  define y where "y = sint (convertDegreesToNanodegrees (nodeYRounded n))"
  define x where "x = sint (convertDegreesToNanodegrees (nodeXRounded n))"
  define c where "c = longToInt (currentChangesetId w)"
  define d where "d = clock cfg (clockReads w)"
  define r1 where "r1 = joinTab ([number i, number y, number x, number c, ''t'', datestring d,
                                  number (int (nodeTile n)), ''1''] @ [])"
  define r2 where "r2 = joinTab ([number i, number y, number x, number c, ''t'', datestring d,
                                  number (int (nodeTile n)), ''1''] @ [nullField])"
  have n1: "nodeRow i r1" unfolding nodeRow_def r1_def by blast
  have n2: "nodeRow i r2" unfolding nodeRow_def r2_def by blast
  from assms obtain w2 where
    1: "writeLines getCurrentNodesTableName [r1] (w\<lparr>clockReads := Suc (clockReads w)\<rparr>) = Inr w2"
    and 2: "writeLines getNodesTableName [r2] w2 = Inr w'"
    unfolding writeNodeToTables_def Let_def currentDateTime_def
    by (auto simp: bind_Inr y_def x_def c_def d_def r1_def r2_def split: if_splits)
  from 1 2 have
    "\<exists>c1 c2. outputSections w getCurrentNodesTableName = Some c1 \<and>
           outputSections w getNodesTableName = Some c2 \<and>
           outputSections w' getCurrentNodesTableName = Some (c1 @ [r1]) \<and>
           outputSections w' getNodesTableName = Some (c2 @ [r2])"
    by (auto simp: writeLines_Inr)
  with n1 n2 show ?thesis by blast
qed

lemma writeTagsToTables_shaped:
  assumes "writeTagsToTables tags i cur hist w = Inr w'" and "cur \<noteq> hist"
    and "outputSections w cur = Some (h # rt)" and "list_all rowLike rt"
  shows "\<exists>rt'. outputSections w' cur = Some (h # rt') \<and> list_all rowLike rt'"
  using assms(1,3,4)
proof (induction tags arbitrary: w rt)
  case Nil
  then show ?case by auto
next
  case (Cons kv tags)
  obtain k v where kv: "kv = (k, v)" by (cases kv)
  from Cons.prems(1) obtain w1 w2 where
    1: "writeLines cur [joinTab [number i, escapeCopyToData k, escapeCopyToData v]] w = Inr w1"
    and 2: "writeLines hist [joinTab [number i, ''1'', escapeCopyToData k, escapeCopyToData v]] w1 = Inr w2"
    and 3: "writeTagsToTables tags i cur hist w2 = Inr w'"
    by (auto simp: kv bind_Inr)
  from 1 2 Cons.prems(2) assms(2) have
    s: "outputSections w2 cur =
          Some (h # (rt @ [joinTab [number i, escapeCopyToData k, escapeCopyToData v]]))"
    by (auto simp: writeLines_Inr)
  have "list_all rowLike (rt @ [joinTab [number i, escapeCopyToData k, escapeCopyToData v]])"
    using Cons.prems(3) rowLike_joinTab_number by simp
  from Cons.IH [OF 3 s this] show ?case .
qed

lemma writeChangesetToTable_shaped:
  assumes "writeChangesetToTable cfg w = Inr w'" and "changesetsShaped w"
  shows "changesetsShaped w'"
proof -
  from assms(1) obtain row where
    s: "outputSections w' getChangesetsTableName =
       Some ((if currentChangesetId w = 1 then [changesetsHeader]
              else the (outputSections w getChangesetsTableName)) @ [row])"
    and e: "currentChangesetId w = 1 \<or> outputSections w getChangesetsTableName \<noteq> None"
    and r: "rowLike row"
    by (rule writeChangesetToTable_effect)
  show ?thesis
  proof (cases "currentChangesetId w = 1")
    case True
    with s r show ?thesis by (simp add: changesetsShaped_def shaped_def)
  next
    case False
    with e obtain c where c: "outputSections w getChangesetsTableName = Some c" by auto
    with assms(2) obtain rows where "c = changesetsHeader # rows" "list_all rowLike rows"
      by (auto simp: changesetsShaped_def shaped_def)
    with s r False c show ?thesis by (simp add: changesetsShaped_def shaped_def)
  qed
qed

lemma incrementChangesInChangeset_shaped:
  assumes "incrementChangesInChangeset cfg w = Inr w'" and "changesetsShaped w"
  shows "changesetsShaped w'"
proof (cases "changesInChangeset w + 1 = maxChangesetSize cfg")
  case True
  let ?w1 = "w\<lparr>changesInChangeset := changesInChangeset w + 1\<rparr>"
  from True assms(1) obtain w2 where a: "writeChangesetToTable cfg ?w1 = Inr w2"
    and b: "w' = w2\<lparr>currentChangesetId := currentChangesetId w2 + 1,
                       changesInChangeset := 0,
                       changesetBounds := None,
                       changesetsWritten := changesetsWritten w2 + 1\<rparr>"
    by (auto simp: incrementChangesInChangeset_def Let_def bind_Inr)
  from assms(2) have "changesetsShaped ?w1" by (simp add: changesetsShaped_def)
  with a have "changesetsShaped w2" by (rule writeChangesetToTable_shaped)
  then show ?thesis by (simp add: b changesetsShaped_def)
next
  case False
  with assms(1) have "w' = w\<lparr>changesInChangeset := changesInChangeset w + 1\<rparr>"
    by (auto simp: incrementChangesInChangeset_def Let_def)
  with assms(2) show ?thesis by (simp add: changesetsShaped_def)
qed

lemma nodeInv_writePartialNode:
  assumes "nodeInv f k w" and "writePartialNode cfg n w = Inr w'"
  shows "nodeInv f (Suc k) w'"
proof -
  let ?P = "nodePrelude n w"
  from assms(2) obtain m w4 w5 w6 where
    4: "writeNodeToTables cfg n (currentNodeId ?P)
       (?P\<lparr>nodeIdMap := Some (m(nodeId n \<mapsto> currentNodeId ?P)),
            currentNodeId := currentNodeId ?P + 1\<rparr>) = Inr w4"
    and 5: "writeTagsToTables (nodeTags n) (currentNodeId ?P)
       getCurrentNodeTagsTableName getNodeTagsTableName w4 = Inr w5"
    and 6: "incrementChangesInChangeset cfg
       (w5\<lparr>nodesWritten := nodesWritten w5 + 1,
           nodeTagsWritten := nodeTagsWritten w5 + int (length (nodeTags n))\<rparr>) = Inr w6"
    and 7: "checkUnresolvedReferences (Node, nodeId n) (currentNodeId ?P) w6 = Inr w'"
    by (rule writePartialNode_steps)
  let ?w3 = "?P\<lparr>nodeIdMap := Some (m(nodeId n \<mapsto> currentNodeId ?P)),
                 currentNodeId := currentNodeId ?P + 1\<rparr>"
  let ?w5 = "w5\<lparr>nodesWritten := nodesWritten w5 + 1,
                 nodeTagsWritten := nodeTagsWritten w5 + int (length (nodeTags n))\<rparr>"
  have id: "currentNodeId ?P = f + int k" and nw: "nodesWritten ?P = int k"
    using assms(1) by (simp_all add: nodePrelude_fields nodeInv_def)
  have s3: "nodeSections f k ?w3" "changesetsShaped ?w3"
    using nodePrelude_sections [OF assms(1), of n]
    by (simp_all add: nodeSections_def changesetsShaped_def)
  have c3: "nodesWritten ?w3 = int k" "currentNodeId ?w3 = f + int k + 1"
    using id nw by simp_all
  from s3(1) obtain rc rn rt where
    a: "outputSections ?w3 getCurrentNodesTableName = Some (currentNodesHeader # rc)"
       "list_all2 nodeRow (localIds f k) rc"
       "outputSections ?w3 getNodesTableName = Some (nodesHeader # rn)"
       "list_all2 nodeRow (localIds f k) rn"
       "outputSections ?w3 getCurrentNodeTagsTableName = Some (currentNodeTagsHeader # rt)"
       "list_all rowLike rt"
    unfolding nodeSections_def by blast
  from writeNodeToTables_effect [OF 4] obtain r1 r2 c1 c2 where
    b: "outputSections ?w3 getCurrentNodesTableName = Some c1"
       "outputSections ?w3 getNodesTableName = Some c2"
       "outputSections w4 getCurrentNodesTableName = Some (c1 @ [r1])"
       "outputSections w4 getNodesTableName = Some (c2 @ [r2])"
       "nodeRow (currentNodeId ?P) r1" "nodeRow (currentNodeId ?P) r2"
    by blast
  have q4: "quiet {getCurrentNodesTableName, getNodesTableName} ?w3 w4"
    using 4 by (rule writeNodeToTables_quiet)
  have t4: "outputSections w4 getCurrentNodeTagsTableName = Some (currentNodeTagsHeader # rt)"
    using q4 a(5) by (simp add: quiet_def sameOutside_def)
  have rows4: "list_all2 nodeRow (localIds f (Suc k)) (rc @ [r1])"
       "list_all2 nodeRow (localIds f (Suc k)) (rn @ [r2])"
    using a(2,4) b(5,6) id by (simp_all add: localIds_Suc list_all2_appendI)
  have sec4: "outputSections w4 getCurrentNodesTableName = Some (currentNodesHeader # rc @ [r1])"
       "outputSections w4 getNodesTableName = Some (nodesHeader # rn @ [r2])"
    using a(1,3) b(1-4) by simp_all
  have cs4: "changesetsShaped w4"
    using q4 s3(2) by (rule quiet_changesetsShaped) simp
  have q5: "quiet {getCurrentNodeTagsTableName, getNodeTagsTableName} w4 w5"
    using 5 by (rule writeTagsToTables_quiet)
  from writeTagsToTables_shaped [OF 5 _ t4 a(6)] obtain rt' where
    t5: "outputSections w5 getCurrentNodeTagsTableName = Some (currentNodeTagsHeader # rt')"
        "list_all rowLike rt'"
    by auto
  have sec5: "outputSections w5 getCurrentNodesTableName = Some (currentNodesHeader # rc @ [r1])"
       "outputSections w5 getNodesTableName = Some (nodesHeader # rn @ [r2])"
    using q5 sec4 by (simp_all add: quiet_def sameOutside_def)
  have n5: "nodeSections f (Suc k) ?w5"
    unfolding nodeSections_def using sec5 t5 rows4 by simp
  have cs5: "changesetsShaped ?w5"
    using quiet_changesetsShaped [OF q5 cs4] by (simp add: changesetsShaped_def)
  have c5: "nodesWritten ?w5 = int (Suc k)" "currentNodeId ?w5 = f + int (Suc k)"
    using quiet_counters [OF q4] quiet_counters [OF q5] c3 by simp_all
  have cs6: "changesetsShaped w6" using 6 cs5 by (rule incrementChangesInChangeset_shaped)
  from incrementChangesInChangeset_frame [OF 6] have
    f6: "coreOf w6 = coreOf ?w5" "sameOutside {getChangesetsTableName} ?w5 w6" .
  have n6: "nodeSections f (Suc k) w6"
    using n5 by (rule nodeSections_same) (insert f6(2), simp_all add: sameOutside_def)
  have c6: "nodesWritten w6 = int (Suc k)" "currentNodeId w6 = f + int (Suc k)"
    using f6(1) c5 by (simp_all add: coreOf_def)
  have q7: "quiet {getCurrentRelationMembersTableName, getRelationMembersTableName} w6 w'"
    using 7 by (rule checkUnresolvedReferences_quiet)
  have "nodeSections f (Suc k) w'" using q7 n6 by (rule quiet_nodeSections) simp_all
  moreover have "changesetsShaped w'" using q7 cs6 by (rule quiet_changesetsShaped) simp
  moreover have "nodesWritten w' = int (Suc k)" "currentNodeId w' = f + int (Suc k)"
    using quiet_counters [OF q7] c6 by simp_all
  ultimately show ?thesis by (simp add: nodeInv_def)
qed

lemma nodeInv_writeAll:
  "nodeInv f k w0 \<Longrightarrow> writeAll cfg (map NodeElement ns) w0 = Inr w \<Longrightarrow>
   nodeInv f (k + length ns) w"
proof (induction ns arbitrary: k w0)
  case Nil
  then show ?case by simp
next
  case (Cons n ns)
  from Cons.prems(2) obtain w1 where 1: "writePartialNode cfg n w0 = Inr w1"
    and 2: "writeAll cfg (map NodeElement ns) w1 = Inr w"
    by (auto simp: bind_Inr)
  from Cons.IH [OF nodeInv_writePartialNode [OF Cons.prems(1) 1] 2] show ?case by simp
qed

lemma nodeInv_openWriter: "nodeInv (currentNodeId (openWriter cfg)) 0 (openWriter cfg)"
  by (simp add: nodeInv_def changesetsShaped_def openWriter_def Let_def setConfiguration_def
      reset_def getLatestIdsFromDb_def)

lemma openWriter_first:
  "mode cfg = ''offline'' \<Longrightarrow> currentNodeId (openWriter cfg) = nextNodeId cfg"
  "mode cfg = ''online'' \<Longrightarrow> currentNodeId (openWriter cfg) = 1"
  by (simp_all add: openWriter_def Let_def setConfiguration_def reset_def getLatestIdsFromDb_def)

lemma writeSequenceUpdates_lines:
  assumes "writeSequenceUpdates cfg c n wy r w = Inr w'"
  shows "\<exists>ls. outputSections w' ''sequence_updates'' = Some ls \<and> list_all seqLine ls"
proof -
  have 1: "writeLines ''sequence_updates'' l
             (w\<lparr>outputSections := (outputSections w)(''sequence_updates'' \<mapsto> ls)\<rparr>) =
           Inr (w\<lparr>outputSections := (outputSections w)(''sequence_updates'' \<mapsto> ls @ l)\<rparr>)"
    for l ls
    by (simp add: writeLines_def)
  have s: "seqLine (setval a b)" "seqLine []" for a b
    by (auto simp: seqLine_def)
  from assms show ?thesis
    unfolding writeSequenceUpdates_def Let_def createTable_def
    by (simp add: 1 bind_def split: if_splits) (auto simp: s)
qed

lemma trimmed_seqLine:
  assumes "seqLine l" and "h = currentNodesHeader \<or> h = nodesHeader"
  shows "trimmed l \<noteq> h"
proof (cases "l = []")
  case True
  with assms(2) show ?thesis
    by (auto simp: trimmed_def currentNodesHeader_def nodesHeader_def copyHeader_def)
next
  case False
  with assms(1) obtain s v where "l = setval s v" by (auto simp: seqLine_def)
  then obtain rest where l: "l = CHR ''S'' # rest" by (simp add: setval_def)
  have "\<not> isSpace (CHR ''S'')" by (simp add: isSpace_def)
  then have "trimmed l = CHR ''S'' # rev (dropWhile isSpace (rev rest))"
    unfolding l by (rule trimmed_Cons)
  with assms(2) show ?thesis
    by (auto simp: currentNodesHeader_def nodesHeader_def copyHeader_def)
qed

lemma trimmed_fixed:
  assumes "h = currentNodesHeader \<or> h = nodesHeader"
  shows "trimmed [] \<noteq> h" "trimmed terminator \<noteq> h" "trimmed ''BEGIN TRANSACTION;'' \<noteq> h"
    "trimmed changesetsHeader \<noteq> h" "trimmed currentNodeTagsHeader \<noteq> h"
  using assms
  by (auto simp: trimmed_def isSpace_def currentNodesHeader_def nodesHeader_def copyHeader_def
      changesetsHeader_def currentNodeTagsHeader_def)

lemma trimmed_other_header: "trimmed currentNodesHeader \<noteq> nodesHeader"
  by (simp add: trimmed_def isSpace_def currentNodesHeader_def nodesHeader_def copyHeader_def)

lemma trimmed_rowLike_not_header:
  assumes "rowLike l" and "h = currentNodesHeader \<or> h = nodesHeader"
  shows "trimmed l \<noteq> h"
  using rowLike_trimmed [OF assms(1)] header_facts(2) [OF assms(2)]
  by (rule rowLike_not_header)

lemma shaped_benign:
  assumes "shaped h0 c" and "trimmed h0 \<noteq> h" and "h = currentNodesHeader \<or> h = nodesHeader"
  shows "\<forall>l \<in> set c. trimmed l \<noteq> h"
proof -
  from assms(1) obtain rows where c: "c = h0 # rows" and r: "list_all rowLike rows"
    by (auto simp: shaped_def)
  from r have "\<forall>l \<in> set rows. trimmed l \<noteq> h"
    using trimmed_rowLike_not_header [OF _ assms(3)] by (simp add: list_all_iff)
  with assms(2) show ?thesis by (simp add: c)
qed

lemma nodeRows_rowLike: "list_all2 nodeRow ids rows \<Longrightarrow> list_all rowLike rows"
  by (induction ids rows rule: list_all2_induct) (simp_all add: nodeRow_rowLike)

lemma sectionText_copy:
  assumes "outputSections w t = Some c" and "t \<noteq> ''byte_order_mark''" and "t \<noteq> ''sequence_updates''"
  shows "sectionText cfg w t = c @ [terminator, [], [], []]"
  using assms by (simp add: sectionText_def)

lemma sectionText_shaped_benign:
  assumes "case outputSections w t of None \<Rightarrow> True | Some c \<Rightarrow> shaped h0 c"
    and "trimmed h0 \<noteq> h" and "h = currentNodesHeader \<or> h = nodesHeader"
    and "t \<noteq> ''byte_order_mark''" and "t \<noteq> ''sequence_updates''"
  shows "\<forall>l \<in> set (sectionText cfg w t). trimmed l \<noteq> h"
proof (cases "outputSections w t")
  case None
  then show ?thesis by (simp add: sectionText_def)
next
  case (Some c)
  with assms(1) have "shaped h0 c" by simp
  from shaped_benign [OF this assms(2,3)] trimmed_fixed(1,2) [OF assms(3)]
  show ?thesis
    unfolding sectionText_copy [OF Some assms(4,5)] by simp
qed

lemma sectionText_bom_benign:
  assumes "outputSections w ''byte_order_mark'' = Some [[]]"
    and "h = currentNodesHeader \<or> h = nodesHeader"
  shows "\<forall>l \<in> set (sectionText cfg w ''byte_order_mark''). trimmed l \<noteq> h"
  using assms(1) trimmed_fixed(1) [OF assms(2)] by (simp add: sectionText_def)

lemma sectionText_seq_benign:
  assumes "list_all seqLine (sectionText cfg w ''sequence_updates'')"
    and "h = currentNodesHeader \<or> h = nodesHeader"
  shows "\<forall>l \<in> set (sectionText cfg w ''sequence_updates''). trimmed l \<noteq> h"
  using assms(1) trimmed_seqLine [OF _ assms(2)] by (simp add: list_all_iff)

lemma script_current_nodes:
  assumes "nodeSections f k w" and "changesetsShaped w"
    and "outputSections w ''byte_order_mark'' = Some [[]]"
    and "list_all seqLine (sectionText cfg w ''sequence_updates'')"
  shows "\<exists>pre rows post.
           writeCombinedSqlFile cfg w = pre @ currentNodesHeader # rows @ terminator # post \<and>
           (\<forall>l \<in> set pre. trimmed l \<noteq> currentNodesHeader) \<and>
           list_all2 nodeRow (localIds f k) rows"
proof -
  from assms(1) obtain rc where
    a: "outputSections w getCurrentNodesTableName = Some (currentNodesHeader # rc)"
       "list_all2 nodeRow (localIds f k) rc"
    unfolding nodeSections_def by blast
  let ?h = currentNodesHeader
  have h: "?h = currentNodesHeader \<or> ?h = nodesHeader" by simp
  let ?pre = "''BEGIN TRANSACTION;'' # sectionText cfg w ''byte_order_mark'' @
              sectionText cfg w ''sequence_updates'' @ sectionText cfg w getChangesetsTableName"
  have cs: "case outputSections w getChangesetsTableName of None \<Rightarrow> True
            | Some c \<Rightarrow> shaped changesetsHeader c"
    using assms(2) by (simp add: changesetsShaped_def)
  have "\<forall>l \<in> set ?pre. trimmed l \<noteq> ?h"
    using trimmed_fixed(3) [OF h] sectionText_bom_benign [OF assms(3) h, of cfg]
      sectionText_seq_benign [OF assms(4) h]
      sectionText_shaped_benign [OF cs trimmed_fixed(4) [OF h] h, of cfg]
    by (simp add: ball_Un)
  moreover have "\<exists>post. writeCombinedSqlFile cfg w = ?pre @ ?h # rc @ terminator # post"
    by (simp add: writeCombinedSqlFile_def createSectionNameList_def
        sectionText_copy [OF a(1)])
  ultimately show ?thesis using a(2) by blast
qed

lemma script_nodes:
  assumes "nodeSections f k w" and "changesetsShaped w"
    and "outputSections w ''byte_order_mark'' = Some [[]]"
    and "list_all seqLine (sectionText cfg w ''sequence_updates'')"
  shows "\<exists>pre rows post.
           writeCombinedSqlFile cfg w = pre @ nodesHeader # rows @ terminator # post \<and>
           (\<forall>l \<in> set pre. trimmed l \<noteq> nodesHeader) \<and>
           list_all2 nodeRow (localIds f k) rows"
proof -
  from assms(1) obtain rc rn rt where
    a: "outputSections w getCurrentNodesTableName = Some (currentNodesHeader # rc)"
       "list_all2 nodeRow (localIds f k) rc"
       "outputSections w getNodesTableName = Some (nodesHeader # rn)"
       "list_all2 nodeRow (localIds f k) rn"
       "outputSections w getCurrentNodeTagsTableName = Some (currentNodeTagsHeader # rt)"
       "list_all rowLike rt"
    unfolding nodeSections_def by blast
  let ?h = nodesHeader
  have h: "?h = currentNodesHeader \<or> ?h = nodesHeader" by simp
  let ?pre = "''BEGIN TRANSACTION;'' # sectionText cfg w ''byte_order_mark'' @
              sectionText cfg w ''sequence_updates'' @ sectionText cfg w getChangesetsTableName @
              sectionText cfg w getCurrentNodesTableName @
              sectionText cfg w getCurrentNodeTagsTableName"
  have cs: "case outputSections w getChangesetsTableName of None \<Rightarrow> True
            | Some c \<Rightarrow> shaped changesetsHeader c"
    using assms(2) by (simp add: changesetsShaped_def)
  have cn: "case outputSections w getCurrentNodesTableName of None \<Rightarrow> True
            | Some c \<Rightarrow> shaped currentNodesHeader c"
    using a(1) nodeRows_rowLike [OF a(2)] by (simp add: shaped_def)
  have ct: "case outputSections w getCurrentNodeTagsTableName of None \<Rightarrow> True
            | Some c \<Rightarrow> shaped currentNodeTagsHeader c"
    using a(5,6) by (simp add: shaped_def)
  have "\<forall>l \<in> set ?pre. trimmed l \<noteq> ?h"
    using trimmed_fixed(3) [OF h] sectionText_bom_benign [OF assms(3) h, of cfg]
      sectionText_seq_benign [OF assms(4) h]
      sectionText_shaped_benign [OF cs trimmed_fixed(4) [OF h] h, of cfg]
      sectionText_shaped_benign [OF cn trimmed_other_header h, of cfg]
      sectionText_shaped_benign [OF ct trimmed_fixed(5) [OF h] h, of cfg]
    by (simp add: ball_Un)
  moreover have "\<exists>post. writeCombinedSqlFile cfg w = ?pre @ ?h # rn @ terminator # post"
    by (simp add: writeCombinedSqlFile_def createSectionNameList_def
        sectionText_copy [OF a(3)])
  ultimately show ?thesis using a(4) by blast
qed

lemma flushFinal_nodeSections:
  assumes "flushFinal cfg w = Inr w3" and "nodeSections f k w" and "changesetsShaped w"
  shows "nodeSections f k w3" "changesetsShaped w3"
    "outputSections w3 ''byte_order_mark'' = Some [[]]"
    "outputSections w3 ''sequence_updates'' = outputSections w ''sequence_updates''"
    "currentNodeId w3 = currentNodeId w"
proof -
  define w1 where "w1 = createTable ''byte_order_mark'' [[]] w"
  from assms(1) obtain w2 where
    f: "(if changesInChangeset w1 > 0 then writeChangesetToTable cfg w1 else Inr w1) = Inr w2"
    and w3: "w3 = (if changesetsWritten w2 = 0
                       then w2\<lparr>changesetsWritten := changesetsWritten w2 + 1\<rparr>
                       else w2)"
    by (auto simp: flushFinal_def Let_def w1_def [symmetric] bind_Inr)
  have n1: "nodeSections f k w1" using assms(2)
    by (rule nodeSections_same) (simp_all add: w1_def createTable_def)
  have c1: "changesetsShaped w1" using assms(3)
    by (rule changesetsShaped_same) (simp add: w1_def createTable_def)
  have b1: "outputSections w1 ''byte_order_mark'' = Some [[]]"
    "outputSections w1 ''sequence_updates'' = outputSections w ''sequence_updates''"
    "currentNodeId w1 = currentNodeId w"
    by (simp_all add: w1_def createTable_def)
  have 2: "nodeSections f k w2 \<and> changesetsShaped w2 \<and>
           outputSections w2 ''byte_order_mark'' = Some [[]] \<and>
           outputSections w2 ''sequence_updates'' = outputSections w ''sequence_updates'' \<and>
           currentNodeId w2 = currentNodeId w"
  proof (cases "changesInChangeset w1 > 0")
    case False
    with f have "w2 = w1" by simp
    with n1 c1 b1 show ?thesis by simp
  next
    case True
    with f have wr: "writeChangesetToTable cfg w1 = Inr w2" by simp
    from writeChangesetToTable_frame(1,2) [OF wr] have
      fr: "coreOf w2 = coreOf w1" "sameOutside {getChangesetsTableName} w1 w2" .
    have "nodeSections f k w2"
      using n1 by (rule nodeSections_same) (insert fr(2), simp_all add: sameOutside_def)
    moreover have "changesetsShaped w2" using wr c1 by (rule writeChangesetToTable_shaped)
    moreover have "outputSections w2 ''byte_order_mark'' = Some [[]]"
      "outputSections w2 ''sequence_updates'' = outputSections w ''sequence_updates''"
      using fr(2) b1 by (simp_all add: sameOutside_def)
    moreover have "currentNodeId w2 = currentNodeId w"
      using fr(1) b1(3) by (simp add: coreOf_def)
    ultimately show ?thesis by simp
  qed
  then show "nodeSections f k w3" "changesetsShaped w3"
    "outputSections w3 ''byte_order_mark'' = Some [[]]"
    "outputSections w3 ''sequence_updates'' = outputSections w ''sequence_updates''"
    "currentNodeId w3 = currentNodeId w"
    by (simp_all add: w3 nodeSections_def changesetsShaped_def)
qed

lemma finalize_nothing:
  "finalizePartial cfg (openWriter cfg) = Inr NoDataWritten"
  by (simp add: finalizePartial_def openWriter_def Let_def setConfiguration_def reset_def
      getLatestIdsFromDb_def)

lemma sectionText_seq_offline:
  assumes "outputSections w ''sequence_updates'' = Some ls" and "list_all seqLine ls"
  shows "list_all seqLine (sectionText cfg w ''sequence_updates'')"
  using assms by (simp add: sectionText_def seqLine_def)

lemma sectionText_seq_online:
  "mode cfg = ''online'' \<Longrightarrow> sectionText cfg w ''sequence_updates'' = []"
  by (simp add: sectionText_def split: option.splits)

lemma localIds_shift: "map (\<lambda>i. i + b) (localIds f k) = map (\<lambda>i. b + f + int i) [0..<k]"
  by (simp add: localIds_def)

lemma session_node_ids:
  assumes "session cfg (map NodeElement ns) = Inr (Finished out)"
  shows "(mode cfg = ''offline'' \<longrightarrow>
            map (\<lambda>r. toLong (column 0 r)) (sectionRows currentNodesHeader (script out)) =
              map (\<lambda>i. nextNodeId cfg + int i) [0..<length ns] \<and>
            map (\<lambda>r. toLong (column 0 r)) (sectionRows nodesHeader (script out)) =
              map (\<lambda>i. nextNodeId cfg + int i) [0..<length ns]) \<and>
         (mode cfg = ''online'' \<longrightarrow>
            currentNodeId (finalWriter out) = nextNodeId cfg - 1 \<and>
            map (\<lambda>r. toLong (column 0 r)) (sectionRows currentNodesHeader (script out)) =
              map (\<lambda>i. currentNodeId (finalWriter out) + 1 + int i) [0..<length ns] \<and>
            map (\<lambda>r. toLong (column 0 r)) (sectionRows nodesHeader (script out)) =
              map (\<lambda>i. currentNodeId (finalWriter out) + 1 + int i) [0..<length ns])"
proof -
  from assms obtain w where w: "writeAll cfg (map NodeElement ns) (openWriter cfg) = Inr w"
    and fin: "finalizePartial cfg w = Inr (Finished out)"
    by (auto simp: session_def split: sum.splits)
  let ?f = "currentNodeId (openWriter cfg)"
  let ?k = "length ns"
  have "ns \<noteq> []"
  proof
    assume "ns = []"
    with w have "w = openWriter cfg" by simp
    with fin finalize_nothing [of cfg] show False by simp
  qed
  then have k: "0 < ?k" by simp
  have inv: "nodeInv ?f ?k w"
    using nodeInv_writeAll [OF nodeInv_openWriter w] by simp
  with k have sec: "nodeSections ?f ?k w" and cs: "changesetsShaped w"
    and cur: "currentNodeId w = ?f + int ?k"
    by (simp_all add: nodeInv_def)
  have h1: "currentNodesHeader = currentNodesHeader \<or> currentNodesHeader = nodesHeader"
    and h2: "nodesHeader = currentNodesHeader \<or> nodesHeader = nodesHeader" by simp_all
  show ?thesis using fin
  proof (cases rule: finalizePartial_Finished)
    case (offline w3)
    let ?W = "finalWriter out"
    note ff = flushFinal_nodeSections [OF offline(2) sec cs]
    from writeSequenceUpdates_frame(1) [OF offline(3)]
    have so: "sameOutside {''sequence_updates''} w3 ?W" .
    have n: "nodeSections ?f ?k ?W"
      using ff(1) by (rule nodeSections_same) (insert so, simp_all add: sameOutside_def)
    have c: "changesetsShaped ?W"
      using ff(2) by (rule changesetsShaped_same) (insert so, simp add: sameOutside_def)
    have b: "outputSections ?W ''byte_order_mark'' = Some [[]]"
      using ff(3) so by (simp add: sameOutside_def)
    from writeSequenceUpdates_lines [OF offline(3)] obtain ls where
      "outputSections ?W ''sequence_updates'' = Some ls" "list_all seqLine ls" by blast
    then have s: "list_all seqLine (sectionText cfg ?W ''sequence_updates'')"
      by (rule sectionText_seq_offline)
    from script_current_nodes [OF n c b s] obtain pre rows post where
      1: "script out = pre @ currentNodesHeader # rows @ terminator # post"
         "\<forall>l \<in> set pre. trimmed l \<noteq> currentNodesHeader"
         "list_all2 nodeRow (localIds ?f ?k) rows"
      unfolding offline(4) by blast
    from script_nodes [OF n c b s] obtain pre' rows' post' where
      2: "script out = pre' @ nodesHeader # rows' @ terminator # post'"
         "\<forall>l \<in> set pre'. trimmed l \<noteq> nodesHeader"
         "list_all2 nodeRow (localIds ?f ?k) rows'"
      unfolding offline(4) by blast
    have "map (\<lambda>r. toLong (column 0 r)) (sectionRows currentNodesHeader (script out)) =
            localIds ?f ?k"
      unfolding 1(1) using h1 1(2,3) by (rule plain_section)
    moreover have "map (\<lambda>r. toLong (column 0 r)) (sectionRows nodesHeader (script out)) =
            localIds ?f ?k"
      unfolding 2(1) using h2 2(2,3) by (rule plain_section)
    ultimately show ?thesis
      using offline(1) openWriter_first(1) [OF offline(1)] by (simp add: localIds_def)
  next
    case (online w3)
    let ?W = "finalWriter out"
    note ff = flushFinal_nodeSections [OF online(2) sec cs]
    have s: "list_all seqLine (sectionText cfg w3 ''sequence_updates'')"
      by (simp add: sectionText_seq_online [OF online(1)])
    from lockIds_Inr(2) [OF online(3)] getLatestIdsFromDb_online [OF online(1), of w3]
    have base: "currentNodeId ?W = nextNodeId cfg - 1" by (simp add: coreOf_def)
    from script_current_nodes [OF ff(1,2,3) s] obtain pre rows post where
      1: "writeCombinedSqlFile cfg w3 = pre @ currentNodesHeader # rows @ terminator # post"
         "\<forall>l \<in> set pre. trimmed l \<noteq> currentNodesHeader"
         "list_all2 nodeRow (localIds ?f ?k) rows"
      by blast
    from script_nodes [OF ff(1,2,3) s] obtain pre' rows' post' where
      2: "writeCombinedSqlFile cfg w3 = pre' @ nodesHeader # rows' @ terminator # post'"
         "\<forall>l \<in> set pre'. trimmed l \<noteq> nodesHeader"
         "list_all2 nodeRow (localIds ?f ?k) rows'"
      by blast
    have u1: "updateLines ?W [] (pre @ currentNodesHeader # rows @ terminator # post) =
                Inr (script out)"
      using online(4) by (simp add: updateIdOffsetsInNewFile_def 1(1))
    have u2: "updateLines ?W [] (pre' @ nodesHeader # rows' @ terminator # post') =
                Inr (script out)"
      using online(4) by (simp add: updateIdOffsetsInNewFile_def 2(1))
    have "map (\<lambda>r. toLong (column 0 r)) (sectionRows currentNodesHeader (script out)) =
            map (\<lambda>i. i + currentNodeId ?W) (localIds ?f ?k)"
      by (rule rewritten_section [where t = getCurrentNodesTableName, OF _ u1 1(2,3)]) simp
    moreover have "map (\<lambda>r. toLong (column 0 r)) (sectionRows nodesHeader (script out)) =
            map (\<lambda>i. i + currentNodeId ?W) (localIds ?f ?k)"
      by (rule rewritten_section [where t = getNodesTableName, OF _ u2 2(2,3)]) simp
    ultimately show ?thesis
      using online(1) base openWriter_first(2) [OF online(1)]
      by (simp add: localIds_shift)
  next
    case other
    then show ?thesis by simp
  qed
qed

lemma length_of_ids:
  "map (\<lambda>r. toLong (column 0 r)) rows = map g [0..<k] \<Longrightarrow> length rows = k"
  using length_map [of "\<lambda>r. toLong (column 0 r)" rows] by simp

section \<open>Claims about every stream\<close>

text \<open>
  Claim C9. When an element of a session that has been written so far has the same kind
  and source id as the next element, writing that element fails with the exception for
  updates, and so does the session; and the elements a session has written have pairwise
  different kinds or source ids, so no two of its rows stem from the same kind and source
  id.
\<close>

theorem duplicate_source_id_rejected:
  assumes "writeAll cfg es (openWriter cfg) = Inr w"
    and "e \<in> set es" and "elementIdOf e' = elementIdOf e"
  shows "writePartial cfg e' w = Inl UpdateNotSupported \<and>
         session cfg (es @ e' # rest) = Inl (UpdateNotSupported, []) \<and>
         distinct (map elementIdOf es)"
proof -
  have inv: "idInv es w" using assms(1) by (rule idInv_session)
  have "elementIdOf e' \<in> set (map elementIdOf es)" using assms(2,3) by force
  with inv have 1: "writePartial cfg e' w = Inl UpdateNotSupported"
    by (rule writePartial_duplicate)
  have "writeAll cfg (es @ e' # rest) (openWriter cfg) = Inl UpdateNotSupported"
    using assms(1) 1 by (simp add: writeAll_append bind_def)
  then have 2: "session cfg (es @ e' # rest) = Inl (UpdateNotSupported, [])"
    by (simp add: session_def)
  have 3: "distinct (map elementIdOf es)"
    using writeAll_distinct [OF idInv_openWriter assms(1)] by simp
  from 1 2 3 show ?thesis by simp
qed

theorem duplicate_source_id_rejected_witness:
  "\<exists>w. writeAll sampleOffline [NodeElement sampleNode] (openWriter sampleOffline) = Inr w \<and>
     NodeElement sampleNode \<in> set [NodeElement sampleNode] \<and>
     elementIdOf (NodeElement farNode) = elementIdOf (NodeElement sampleNode) \<and>
     writePartial sampleOffline (NodeElement farNode) w = Inl UpdateNotSupported \<and>
     session sampleOffline ([NodeElement sampleNode] @ NodeElement farNode # []) =
       Inl (UpdateNotSupported, [])"
proof -
  obtain w where w: "writeAll sampleOffline [NodeElement sampleNode] (openWriter sampleOffline) = Inr w"
    using sample_offline_written by blast
  have e: "elementIdOf (NodeElement farNode) = elementIdOf (NodeElement sampleNode)"
    by (simp add: elementIdOf_def farNode_def)
  from duplicate_source_id_rejected [OF w _ e, of "[]"] w e show ?thesis
    by auto
qed

text \<open>
  Claim C10, amended. In online mode, for every stream without nodes in which at least one
  way or relation was written, \<open>finalizePartial\<close> fails, and no SQL has been executed
  against the database by then: no id range is reserved and no script is rewritten. (On
  the empty stream it returns at once without failing, see
  \<open>online_finalize_of_nothing_returns\<close>.)
\<close>

theorem online_finalize_without_nodes_fails:
  assumes "mode cfg = ''online''" and "writeAll cfg es (openWriter cfg) = Inr w"
    and "es \<noteq> []" and "idsOfKind Node es = []"
  shows "\<exists>e. finalizePartial cfg w = Inl (e, []) \<and>
             (e = CannotLockIds \<or> e = InvalidUserId \<or> e = NullPointer)"
proof -
  have inv: "idInv es w" using assms(2) by (rule idInv_session)
  then have n0: "nodesWritten w = 0" using assms(4) by (simp add: idInv_def kindInv_def)
  have "length (idsOfKind Node es) + length (idsOfKind Way es) + length (idsOfKind Relation es)
          = length es"
  proof (induction es)
    case Nil
    show ?case by simp
  next
    case (Cons a es)
    have "idsOfKind k (a # es) = idsOfKind k [a] @ idsOfKind k es" for k
      using idsOfKind_simps(2) [of k "[a]" es] by simp
    with Cons show ?case by (cases a) simp_all
  qed
  with inv assms(3,4) have some: "\<not> (waysWritten w = 0 \<and> relationsWritten w = 0)"
    by (auto simp: idInv_def kindInv_def)
  let ?w1 = "createTable ''byte_order_mark'' [[]] w"
  have n1: "nodesWritten ?w1 = 0" using n0 by (simp add: createTable_def)
  show ?thesis
  proof (cases "if changesInChangeset ?w1 > 0 then writeChangesetToTable cfg ?w1 else Inr ?w1")
    case (Inl e)
    then have "e = InvalidUserId \<or> e = NullPointer"
      by (auto dest: writeChangesetToTable_Inl split: if_splits)
    with Inl n0 some show ?thesis
      by (auto simp: finalizePartial_def Let_def)
  next
    case (Inr w2)
    then have "nodesWritten w2 = 0"
      using n1 by (auto dest!: writeChangesetToTable_frame(1) simp: coreOf_def split: if_splits)
    then have "lockIds cfg (if changesetsWritten w2 = 0
                          then w2\<lparr>changesetsWritten := changesetsWritten w2 + 1\<rparr>
                          else w2) = Inl CannotLockIds"
      by (simp add: lockIds_def)
    with Inr n0 some assms(1) show ?thesis
      by (simp add: finalizePartial_def Let_def)
  qed
qed

theorem online_finalize_without_nodes_fails_witness:
  "mode sampleOnline = ''online'' \<and> [WayElement way50] \<noteq> [] \<and>
   idsOfKind Node [WayElement way50] = [] \<and>
   (\<exists>w e. writeAll sampleOnline [WayElement way50] (openWriter sampleOnline) = Inr w \<and>
      finalizePartial sampleOnline w = Inl (e, []))"
proof -
  obtain w where w: "writeAll sampleOnline [WayElement way50] (openWriter sampleOnline) = Inr w"
    using sample_online_way_written by blast
  have m: "mode sampleOnline = ''online''" by (simp add: sampleOnline_def)
  from online_finalize_without_nodes_fails [OF m w] w m show ?thesis
    by auto
qed

text \<open>
  Claim C10 as stated fails on the empty stream, which contains no nodes: nothing was
  written, and \<open>finalizePartial\<close> returns through its first guard.
\<close>

theorem online_finalize_of_nothing_returns:
  "mode sampleOnline = ''online'' \<and> idsOfKind Node [] = [] \<and>
   writeAll sampleOnline [] (openWriter sampleOnline) = Inr (openWriter sampleOnline) \<and>
   finalizePartial sampleOnline (openWriter sampleOnline) = Inr NoDataWritten"
  by (simp add: sampleOnline_def finalizePartial_def openWriter_def Let_def
      setConfiguration_def reset_def)

text \<open>
  Claim C8, amended. Take a node whose source id has not been written in the session and
  whose rounded coordinates fit a signed 32-bit integer. Writing it fails with the
  latitude exception exactly when the rounded latitude is outside [-9e8, 9e8], and with
  the longitude exception exactly when the rounded latitude is inside that range and the
  rounded longitude is outside [-1.8e9, 1.8e9]. Whenever writing the node fails, the
  session ends with that exception and without a script.
\<close>

theorem node_coordinate_errors:
  assumes "writeAll cfg es (openWriter cfg) = Inr w"
    and "nodeId n \<notin> set (idsOfKind Node es)"
    and "- (2 ^ 31) \<le> nodeYRounded n" and "nodeYRounded n < 2 ^ 31"
    and "- (2 ^ 31) \<le> nodeXRounded n" and "nodeXRounded n < 2 ^ 31"
  shows "(writePartial cfg (NodeElement n) w = Inl InvalidLatitude \<longleftrightarrow>
            (nodeYRounded n < - 900000000 \<or> 900000000 < nodeYRounded n)) \<and>
         (writePartial cfg (NodeElement n) w = Inl InvalidLongitude \<longleftrightarrow>
            (- 900000000 \<le> nodeYRounded n \<and> nodeYRounded n \<le> 900000000 \<and>
             (nodeXRounded n < - 1800000000 \<or> 1800000000 < nodeXRounded n))) \<and>
         (\<forall>e. writePartial cfg (NodeElement n) w = Inl e \<longrightarrow>
              session cfg (es @ NodeElement n # rest) = Inl (e, []))"
proof -
  have inv: "idInv es w" using assms(1) by (rule idInv_session)
  have "\<exists>m. nodeIdMap (nodePrelude n w) = Some m \<and> m (nodeId n) = None"
  proof (cases "idsOfKind Node es = []")
    case True
    with inv have "nodesWritten w = 0" by (simp add: idInv_def kindInv_def)
    then show ?thesis by (simp add: nodePrelude_fields)
  next
    case False
    with inv obtain m where "nodeIdMap w = Some m" "dom m = set (idsOfKind Node es)"
      "nodesWritten w \<noteq> 0"
      by (auto simp: idInv_def kindInv_def)
    with assms(2) show ?thesis by (auto simp: nodePrelude_fields)
  qed
  then obtain m where m: "nodeIdMap (nodePrelude n w) = Some m" "m (nodeId n) = None"
    by blast
  have lat: "latitudeOutOfRange n \<longleftrightarrow> (nodeYRounded n < - 900000000 \<or> 900000000 < nodeYRounded n)"
    using assms(3,4) by (simp add: latitudeOutOfRange_def sint_convertDegreesToNanodegrees)
  have lon: "longitudeOutOfRange n \<longleftrightarrow> (nodeXRounded n < - 1800000000 \<or> 1800000000 < nodeXRounded n)"
    using assms(5,6) by (simp add: longitudeOutOfRange_def sint_convertDegreesToNanodegrees)
  have fail: "session cfg (es @ NodeElement n # rest) = Inl (e, [])"
    if "writePartial cfg (NodeElement n) w = Inl e" for e
    using that assms(1) by (simp add: session_def writeAll_append bind_def)
  from writePartialNode_Inl [OF m, of cfg] lat lon fail show ?thesis
    by (simp add: not_less) 
qed

theorem node_coordinate_errors_witness:
  "writeAll sampleOffline [] (openWriter sampleOffline) = Inr (openWriter sampleOffline) \<and>
   nodeId farNode \<notin> set (idsOfKind Node []) \<and>
   - (2 ^ 31) \<le> nodeYRounded farNode \<and> nodeYRounded farNode < 2 ^ 31 \<and>
   - (2 ^ 31) \<le> nodeXRounded farNode \<and> nodeXRounded farNode < 2 ^ 31 \<and>
   writePartial sampleOffline (NodeElement farNode) (openWriter sampleOffline) =
     Inl InvalidLatitude \<and>
   session sampleOffline ([] @ NodeElement farNode # []) = Inl (InvalidLatitude, [])"
proof -
  have h: "writeAll sampleOffline [] (openWriter sampleOffline) = Inr (openWriter sampleOffline)"
    "nodeId farNode \<notin> set (idsOfKind Node [])"
    "- (2 ^ 31) \<le> nodeYRounded farNode" "nodeYRounded farNode < 2 ^ 31"
    "- (2 ^ 31) \<le> nodeXRounded farNode" "nodeXRounded farNode < 2 ^ 31"
    by (simp_all add: farNode_def sampleNode_def)
  have y: "900000000 < nodeYRounded farNode" by (simp add: farNode_def)
  from node_coordinate_errors [OF h, of "[]"] h y show ?thesis
    by simp
qed

text \<open>
  Claim C8 as stated fails where both coordinates are out of range: at latitude 91.0 and
  longitude 181.0 the exception is the one for the latitude, which is checked first, and
  not the one for the longitude.
\<close>

theorem longitude_error_hidden_by_latitude:
  "1800000000 < nodeXRounded farNode \<and>
   writePartial sampleOffline (NodeElement farNode) (openWriter sampleOffline) =
     Inl InvalidLatitude \<and>
   writePartial sampleOffline (NodeElement farNode) (openWriter sampleOffline) \<noteq>
     Inl InvalidLongitude"
  by (simp add: writer_eval text_eval farNode_def sampleNode_def sampleOffline_def)

text \<open>
  Outside the 32-bit range the conversion to \<open>unsigned int\<close> wraps: latitude 450.0
  becomes 205032704 and passes the range check.
\<close>

lemma latitude_450_wraps: "sint (convertDegreesToNanodegrees 4500000000) = 205032704"
  by (simp add: convertDegreesToNanodegrees_def)


text \<open>
  Claim C6. With a positive limit of changes per changeset, whenever a session returns a
  script, every row in the section \<open>changesets\<close> carries a number of changes that is at
  most the limit, and these numbers add up to the number of nodes, ways and relations
  written, which is the length of the stream.
\<close>

theorem changeset_rows_bounded_and_complete:
  assumes "0 < maxChangesetSize cfg" and "session cfg es = Inr (Finished out)"
  shows "(\<forall>r \<in> set (changesetRows (finalWriter out)). numChanges r \<le> maxChangesetSize cfg) \<and>
         sum_list (map numChanges (changesetRows (finalWriter out))) =
           nodesWritten (finalWriter out) + waysWritten (finalWriter out) +
           relationsWritten (finalWriter out) \<and>
         nodesWritten (finalWriter out) + waysWritten (finalWriter out) +
           relationsWritten (finalWriter out) = int (length es)"
proof -
  from assms(2) obtain w where w: "writeAll cfg es (openWriter cfg) = Inr w"
    and fin: "finalizePartial cfg w = Inr (Finished out)"
    by (auto simp: session_def split: sum.splits)
  have inv: "csInv cfg (int (length es)) w"
    using csInv_writeAll [OF csInv_openWriter [OF assms(1)] w] by simp
  have tot: "nodesWritten w + waysWritten w + relationsWritten w = int (length es)"
    using idInv_session [OF w] by (rule written_total)
  have key: "list_all (\<lambda>r. numChanges r \<le> maxChangesetSize cfg) (changesetRows (finalWriter out)) \<and>
         sum_list (map numChanges (changesetRows (finalWriter out))) = int (length es) \<and>
         nodesWritten (finalWriter out) = nodesWritten w \<and>
         waysWritten (finalWriter out) = waysWritten w \<and>
         relationsWritten (finalWriter out) = relationsWritten w"
    using fin
  proof (cases rule: finalizePartial_Finished)
    case (offline w3)
    from writeSequenceUpdates_frame [OF offline(3)]
    have "changesetRows (finalWriter out) = changesetRows w3" "coreOf (finalWriter out) = coreOf w3"
      by (simp_all add: sameOutside_def changesetRows_def)
    with flushFinal_rows [OF inv offline(2)] show ?thesis by (simp add: coreOf_def)
  next
    case (online w3)
    from lockIds_Inr [OF online(3)]
    have "changesetRows (finalWriter out) = changesetRows w3"
      "coreOf (finalWriter out) = coreOf (getLatestIdsFromDb cfg w3)"
      by (simp_all add: sameOutside_def changesetRows_def)
    with flushFinal_rows [OF inv online(2)] show ?thesis
      by (simp add: coreOf_def getLatestIdsFromDb_frame)
  next
    case other
    with flushFinal_rows [OF inv other(3)] show ?thesis by simp
  qed
  with tot show ?thesis by (simp add: list_all_iff)
qed

theorem changeset_rows_bounded_and_complete_witness:
  "0 < maxChangesetSize sampleOffline \<and>
   (\<exists>out. session sampleOffline [NodeElement sampleNode] = Inr (Finished out) \<and>
      sum_list (map numChanges (changesetRows (finalWriter out))) = 1)"
proof -
  have m: "0 < maxChangesetSize sampleOffline" by (simp add: sampleOffline_def)
  obtain out where s: "session sampleOffline [NodeElement sampleNode] = Inr (Finished out)"
    using sample_offline_session by blast
  from changeset_rows_bounded_and_complete [OF m s] m s show ?thesis
    by auto
qed

text \<open>
  Claim C3. Whenever a session over a stream of N nodes returns a script, the section
  \<open>current_nodes\<close> and the section \<open>nodes\<close> of that script each hold exactly N rows, and the
  ids in their first column are, row by row, consecutive: in offline mode they start at the
  node id read from the database when the writer was opened, so they are
  \<open>start\<close>, \<open>\<dots>\<close>, \<open>start + N - 1\<close>; in online mode the base is the node id the writer holds
  after it has reserved the ids, which is the next node id of the database less one, and
  the rewritten script carries \<open>base + 1\<close>, \<open>\<dots>\<close>, \<open>base + N\<close>. A stream that repeats a source
  id, or holds a node out of range, returns no script; the source ids of a session that
  returns one are therefore distinct, and the statement needs no hypothesis on them.
\<close>

theorem node_rows_carry_consecutive_ids:
  assumes "session cfg (map NodeElement ns) = Inr (Finished out)"
  shows "(mode cfg = ''offline'' \<longrightarrow>
            length (sectionRows currentNodesHeader (script out)) = length ns \<and>
            length (sectionRows nodesHeader (script out)) = length ns \<and>
            map (\<lambda>r. toLong (column 0 r)) (sectionRows currentNodesHeader (script out)) =
              map (\<lambda>i. nextNodeId cfg + int i) [0..<length ns] \<and>
            map (\<lambda>r. toLong (column 0 r)) (sectionRows nodesHeader (script out)) =
              map (\<lambda>i. nextNodeId cfg + int i) [0..<length ns]) \<and>
         (mode cfg = ''online'' \<longrightarrow>
            currentNodeId (finalWriter out) = nextNodeId cfg - 1 \<and>
            length (sectionRows currentNodesHeader (script out)) = length ns \<and>
            length (sectionRows nodesHeader (script out)) = length ns \<and>
            map (\<lambda>r. toLong (column 0 r)) (sectionRows currentNodesHeader (script out)) =
              map (\<lambda>i. currentNodeId (finalWriter out) + 1 + int i) [0..<length ns] \<and>
            map (\<lambda>r. toLong (column 0 r)) (sectionRows nodesHeader (script out)) =
              map (\<lambda>i. currentNodeId (finalWriter out) + 1 + int i) [0..<length ns])"
  using session_node_ids [OF assms] length_of_ids by blast

theorem node_rows_carry_consecutive_ids_witness:
  "(\<exists>out. session offlineFrom500 (map NodeElement [sampleNode, secondNode]) = Inr (Finished out) \<and>
      mode offlineFrom500 = ''offline'' \<and>
      map (\<lambda>r. toLong (column 0 r)) (sectionRows currentNodesHeader (script out)) = [500, 501] \<and>
      map (\<lambda>r. toLong (column 0 r)) (sectionRows nodesHeader (script out)) = [500, 501]) \<and>
   (\<exists>out. session sampleOnline (map NodeElement [sampleNode, secondNode]) = Inr (Finished out) \<and>
      mode sampleOnline = ''online'' \<and> currentNodeId (finalWriter out) = 1000 \<and>
      map (\<lambda>r. toLong (column 0 r)) (sectionRows currentNodesHeader (script out)) = [1001, 1002] \<and>
      map (\<lambda>r. toLong (column 0 r)) (sectionRows nodesHeader (script out)) = [1001, 1002])"
proof -
  obtain o1 where
    s1: "session offlineFrom500 (map NodeElement [sampleNode, secondNode]) = Inr (Finished o1)"
    using offline_two_nodes_session by auto
  obtain o2 where
    s2: "session sampleOnline (map NodeElement [sampleNode, secondNode]) = Inr (Finished o2)"
    using online_two_nodes_session by auto
  have m: "mode offlineFrom500 = ''offline''" "nextNodeId offlineFrom500 = 500"
    "mode sampleOnline = ''online''" "nextNodeId sampleOnline = 1001"
    by (simp_all add: offlineFrom500_def sampleOnline_def sampleOffline_def)
  from node_rows_carry_consecutive_ids [OF s1] node_rows_carry_consecutive_ids [OF s2] s1 s2 m
  show ?thesis by (intro conjI exI [of _ o1] exI [of _ o2]) simp_all
qed

section \<open>Claims that fail on concrete inputs\<close>

text \<open>
  Claim C1 (fails on the code). In the section \<open>relation_members\<close> the row of relation 2
  with member relation 1 is rewritten with the relation base 3000: the relation id becomes
  3002, but the member id stays 1, although relation 1 is stored under id 3001. Only the
  member kinds \<open>node\<close> and \<open>way\<close> have a branch in the source.
\<close>

theorem relation_member_id_not_offset:
  "updateIdOffsetsInNewFile sampleBases
     [copyHeader getRelationMembersTableName
        ''relation_id, member_type, member_id, member_role, version, sequence_id'',
      joinTab [''2'', ''Relation'', ''1'', ''z'', ''1'', ''1''],
      terminator]
   = Inr [copyHeader getRelationMembersTableName
            ''relation_id, member_type, member_id, member_role, version, sequence_id'',
          joinTab [''3002'', ''Relation'', ''1'', ''z'', ''1'', ''1''],
          terminator, []]"
  by (simp add: updateIdOffsetsInNewFile_def updateLine_def addOffset_def bind_def
      sampleBases_def reset_def text_eval)

text \<open>
  Claim C2 (fails on the code). Relations A and B both refer to way -50 before it is
  written. When the way arrives, the section \<open>current_relation_members\<close> and the section
  \<open>relation_members\<close> each hold one row, the one of relation A (local id 1): the reference
  of relation B (local id 2) has no row.
\<close>

theorem second_forward_reference_lost:
  "(case writeAll sampleOffline
           [RelationElement relationA, RelationElement relationB, WayElement way50]
           (openWriter sampleOffline) of
      Inl e \<Rightarrow> None
    | Inr w \<Rightarrow> Some (outputSections w getCurrentRelationMembersTableName,
                    outputSections w getRelationMembersTableName))
   = Some (Some [copyHeader getCurrentRelationMembersTableName
                   ''relation_id, member_type, member_id, member_role, sequence_id'',
                 joinTab [''1'', ''Way'', ''1'', ''a'', ''1'']],
           Some [copyHeader getRelationMembersTableName
                   ''relation_id, member_type, member_id, member_role, version, sequence_id'',
                 joinTab [''1'', ''Way'', ''1'', ''a'', ''1'', ''1'']])"
  by (simp add: writer_eval text_eval sampleOffline_def relationA_def relationB_def way50_def
      sampleTime_def)

text \<open>
  Claim C4 (fails on the code). In the script of that session the close marker of the
  section \<open>changesets\<close> is followed by three empty lines, not two, before the header of
  \<open>current_nodes\<close>: two are written after the marker, and the loop that copies the
  section writes one more line after the last line it has read.
\<close>

theorem three_empty_lines_after_close_marker:
  "\<exists>out. session sampleOffline [NodeElement sampleNode] = Inr (Finished out) \<and>
     take 5 (dropWhile (\<lambda>l. l \<noteq> terminator) (script out)) =
       [terminator, [], [], [],
        copyHeader getCurrentNodesTableName
          (''id, latitude, longitude, changeset_id, visible, '' @ quotedTimestamp @ '', tile, version'')]"
proof -
  obtain fw out where "session sampleOffline [NodeElement sampleNode] = Inr (Finished out)"
    and "script out =
          [''BEGIN TRANSACTION;'', [], [],
           setval getChangesetsSequenceName 0,
           setval getCurrentNodesSequenceName 1, [],
           copyHeader getChangesetsTableName
             ''id, user_id, created_at, min_lat, max_lat, min_lon, max_lon, closed_at, num_changes'',
           joinTab [''1'', ''17'', ''2017-03-09 01:02:03.045'', ''10000000'', ''10000000'',
                    ''20000000'', ''20000000'', ''2017-03-09 01:02:03.045'', ''1''],
           terminator, [], [], [],
           copyHeader getCurrentNodesTableName
             (''id, latitude, longitude, changeset_id, visible, '' @ quotedTimestamp @ '', tile, version''),
           joinTab [''1'', ''10000000'', ''20000000'', ''1'', ''t'', ''2017-03-09 01:02:03.045'',
                    ''77'', ''1''],
           terminator, [], [], [],
           copyHeader getCurrentNodeTagsTableName ''node_id, k, v'',
           terminator, [], [], [],
           copyHeader getNodesTableName
             (''node_id, latitude, longitude, changeset_id, visible, '' @ quotedTimestamp @ '', tile, version, redaction_id''),
           joinTab [''1'', ''10000000'', ''20000000'', ''1'', ''t'', ''2017-03-09 01:02:03.045'',
                    ''77'', ''1'', nullField],
           terminator, [], [], [],
           copyHeader getNodeTagsTableName ''node_id, version, k, v'',
           terminator, [], [], [],
           ''COMMIT;'']"
    using sample_offline_session by force
  then show ?thesis
    by (intro exI [of _ out]) (simp add: text_eval)
qed

text \<open>
  Claim C5 (fails on the code for changesets). The same session writes one changeset, with
  id 1, so the largest changeset id in use is 1 = start + count - 1; the statement emitted
  for the changeset sequence sets it to 0. The final flush of a changeset does not advance
  the current changeset id, which the decrement in \<open>finalizePartial\<close> relies on. In a
  build that keeps \<open>assert\<close>, the source's own \<open>assert(changesetId > 0)\<close> stops the
  session instead.
\<close>

theorem offline_changeset_sequence_below_used_id:
  "(\<exists>out. session sampleOffline [NodeElement sampleNode] = Inr (Finished out) \<and>
      script out ! 3 = setval getChangesetsSequenceName 0 \<and>
      sectionRows
        (copyHeader getChangesetsTableName
           ''id, user_id, created_at, min_lat, max_lat, min_lon, max_lon, closed_at, num_changes'')
        (script out) =
        [joinTab [''1'', ''17'', ''2017-03-09 01:02:03.045'', ''10000000'', ''10000000'',
                  ''20000000'', ''20000000'', ''2017-03-09 01:02:03.045'', ''1'']]) \<and>
   session (sampleOffline\<lparr>assertsEnabled := True\<rparr>) [NodeElement sampleNode] =
     Inl (AssertionFailed, [])"
proof -
  obtain fw out where "session sampleOffline [NodeElement sampleNode] = Inr (Finished out)"
    and "script out =
          [''BEGIN TRANSACTION;'', [], [],
           setval getChangesetsSequenceName 0,
           setval getCurrentNodesSequenceName 1, [],
           copyHeader getChangesetsTableName
             ''id, user_id, created_at, min_lat, max_lat, min_lon, max_lon, closed_at, num_changes'',
           joinTab [''1'', ''17'', ''2017-03-09 01:02:03.045'', ''10000000'', ''10000000'',
                    ''20000000'', ''20000000'', ''2017-03-09 01:02:03.045'', ''1''],
           terminator, [], [], [],
           copyHeader getCurrentNodesTableName
             (''id, latitude, longitude, changeset_id, visible, '' @ quotedTimestamp @ '', tile, version''),
           joinTab [''1'', ''10000000'', ''20000000'', ''1'', ''t'', ''2017-03-09 01:02:03.045'',
                    ''77'', ''1''],
           terminator, [], [], [],
           copyHeader getCurrentNodeTagsTableName ''node_id, k, v'',
           terminator, [], [], [],
           copyHeader getNodesTableName
             (''node_id, latitude, longitude, changeset_id, visible, '' @ quotedTimestamp @ '', tile, version, redaction_id''),
           joinTab [''1'', ''10000000'', ''20000000'', ''1'', ''t'', ''2017-03-09 01:02:03.045'',
                    ''77'', ''1'', nullField],
           terminator, [], [], [],
           copyHeader getNodeTagsTableName ''node_id, version, k, v'',
           terminator, [], [], [],
           ''COMMIT;'']"
    using sample_offline_session by force
  then have "\<exists>out. session sampleOffline [NodeElement sampleNode] = Inr (Finished out) \<and>
      script out ! 3 = setval getChangesetsSequenceName 0 \<and>
      sectionRows
        (copyHeader getChangesetsTableName
           ''id, user_id, created_at, min_lat, max_lat, min_lon, max_lon, closed_at, num_changes'')
        (script out) =
        [joinTab [''1'', ''17'', ''2017-03-09 01:02:03.045'', ''10000000'', ''10000000'',
                  ''20000000'', ''20000000'', ''2017-03-09 01:02:03.045'', ''1'']]"
    by (intro exI [of _ out]) (simp add: sectionRows_def text_eval)
  moreover have "session (sampleOffline\<lparr>assertsEnabled := True\<rparr>) [NodeElement sampleNode] =
     Inl (AssertionFailed, [])"
    by (simp add: session_def finalizePartial_def writeSequenceUpdates_def
        writer_eval text_eval sampleOffline_def sampleNode_def sampleTime_def)
  ultimately show ?thesis by blast
qed

end
